theory Spec2Isabelle
  imports Main
begin

section \<open>Strings\<close>

text \<open>
  JavaScript strings are modelled as \<^typ>\<open>string\<close>: a character is a code unit below
  256, that is one of the code points U+0000 to U+00FF. Strings with a code unit from 256
  on are outside the model.

  White space is what both \<^verbatim>\<open>String.prototype.trim\<close> and the regular expression class
  \<^verbatim>\<open>\s\<close> take for white space among these characters: tab, line feed, vertical tab,
  form feed, carriage return, space, and the no-break space U+00A0.
\<close>

definition isWhitespace :: "char \<Rightarrow> bool" where
  "isWhitespace c = (of_char c \<in> {9, 10, 11, 12, 13, 32, 160 :: nat})"

text \<open>
  The functions modelled here use \<^verbatim>\<open>toLowerCase\<close> and \<^verbatim>\<open>toUpperCase\<close> only to compare the result with
  a word of ASCII letters and digits. The mappings are written on the ASCII letters. From
  code unit 128 on JavaScript maps a character to characters outside ASCII, or the sharp s
  to two letters S in a row, which none of the words compared with has; so every such
  comparison has the value it has in the source.
\<close>

definition lowerChar :: "char \<Rightarrow> char" where
  "lowerChar c =
     (let n = of_char c :: nat in if 65 \<le> n \<and> n \<le> 90 then char_of (n + 32) else c)"

definition upperChar :: "char \<Rightarrow> char" where
  "upperChar c =
     (let n = of_char c :: nat in if 97 \<le> n \<and> n \<le> 122 then char_of (n - 32) else c)"

definition toLowerCase :: "string \<Rightarrow> string" where
  "toLowerCase s = map lowerChar s"

definition toUpperCase :: "string \<Rightarrow> string" where
  "toUpperCase s = map upperChar s"

text \<open>\<^verbatim>\<open>s.trim()\<close>: white space is dropped at both ends.\<close>

definition trim :: "string \<Rightarrow> string" where
  "trim s = rev (dropWhile isWhitespace (rev (dropWhile isWhitespace s)))"

text \<open>\<^verbatim>\<open>s.replace(/\s+/g, "")\<close>: every white-space character is removed.\<close>

definition removeWhitespace :: "string \<Rightarrow> string" where
  "removeWhitespace s = filter (\<lambda>c. \<not> isWhitespace c) s"

section \<open>Domain types (types.ts)\<close>

record HPCSARecord =
  name :: string
  registration :: string
  city :: string
  status :: string

text \<open>
  \<^verbatim>\<open>BatchSearchResult extends HPCSARecord\<close>. Its two optional fields
  (\<^verbatim>\<open>professionalCouncilName\<close>, \<^verbatim>\<open>timeInSession\<close>) are never written by the
  services modelled here and are left out.
\<close>

record BatchSearchResult = HPCSARecord +
  found :: bool

record BatchStatistics =
  activeCount :: nat
  inactiveCount :: nat
  notFoundCount :: nat
  totalProcessed :: nat

section \<open>Service types and configuration (types.ts)\<close>

record HPCSAApiConfig =
  apiUrl :: string
  timeoutMs :: int
  maxRetries :: int
  batchSize :: int
  maxConcurrentRequests :: int
  delayBetweenBatchesMs :: int

text \<open>Optional fields are options: \<open>None\<close> is an absent (undefined) field.\<close>

record SearchOptions =
  opt_timeoutMs :: "int option"
  opt_maxRetries :: "int option"

text \<open>
  \<^verbatim>\<open>BatchSearchOptions extends SearchOptions\<close>. The progress callback is caller code
  with no result; all that is kept of it is whether one was supplied, and each of its
  invocations is recorded as an event.
\<close>

record BatchSearchOptions = SearchOptions +
  opt_batchSize :: "int option"
  opt_maxConcurrent :: "int option"
  opt_delayBetweenBatchesMs :: "int option"
  onProgress :: bool

section \<open>Effects: promises, events, the network\<close>

text \<open>
  The remote endpoint answers with \<^verbatim>\<open>{data: any[][], headers: any[], error: string | null}\<close>.
  A cell of a row is a string when present; \<open>None\<close> is a cell that is null. The fields
  of \<open>HPCSARecord\<close> are declared strings, which is what the cells are taken to be. A
  JSON body of another shape than the declared one is outside the model.
\<close>

type_synonym cell = "string option"

record HPCSAApiResponse =
  data :: "cell list list option"
  headers :: "cell list"
  error :: "string option"

text \<open>
  What one call of \<^verbatim>\<open>fetch\<close> can do: the abort signal fires first (the timeout), the
  request fails, or a response arrives with an HTTP status and a body that is valid JSON
  (\<open>Some\<close>) or not (\<open>None\<close>).
\<close>

datatype fetch_result =
    Aborted
  | NetworkFailure
  | Response nat "HPCSAApiResponse option"

datatype js_error = AbortError | NetworkError | ApiReturned nat | SyntaxError

text \<open>
  Observable actions, in the order they are started: a request with the registration
  number it carries and its timeout, a call of \<^verbatim>\<open>this.delay(ms)\<close>, a call of the
  progress callback, and a wave of concurrent lookups (\<^verbatim>\<open>Promise.all\<close>), which holds
  the events of each of its lookups, in the order of the wave's input.
\<close>

datatype event =
    Fetch string int
  | Delay int
  | Progress int int
  | Wave "event list list"

text \<open>
  An \<^verbatim>\<open>async\<close> function is modelled by what its promise settles to, \<open>Inl\<close> a rejection
  and \<open>Inr\<close> a value, together with the events it caused.
\<close>

type_synonym 'a promise = "(js_error + 'a) \<times> event list"

definition resolve :: "'a \<Rightarrow> 'a promise" where
  "resolve v = (Inr v, [])"

text \<open>\<^verbatim>\<open>await m\<close> followed by the rest of the body.\<close>

definition await :: "'a promise \<Rightarrow> ('a \<Rightarrow> 'b promise) \<Rightarrow> 'b promise" where
  "await m f =
     (case m of
        (Inl e, t) \<Rightarrow> (Inl e, t)
      | (Inr v, t) \<Rightarrow> (case f v of (r, t') \<Rightarrow> (r, t @ t')))"

text \<open>\<^verbatim>\<open>try { m } catch (e) { h e }\<close>\<close>

definition try_catch :: "'a promise \<Rightarrow> (js_error \<Rightarrow> 'a promise) \<Rightarrow> 'a promise" where
  "try_catch m h =
     (case m of
        (Inl e, t) \<Rightarrow> (case h e of (r, t') \<Rightarrow> (r, t @ t'))
      | (Inr v, t) \<Rightarrow> (Inr v, t))"

text \<open>
  \<^verbatim>\<open>Promise.all\<close>: all promises run; the result is the list of their values, in the
  order of the input whatever the order of completion, or a rejection when one of them
  rejects.
\<close>

fun collect :: "(js_error + 'a) list \<Rightarrow> js_error + 'a list" where
  "collect [] = Inr []"
| "collect (Inl e # rs) = Inl e"
| "collect (Inr v # rs) = (case collect rs of Inl e \<Rightarrow> Inl e | Inr vs \<Rightarrow> Inr (v # vs))"

definition promise_all :: "'a promise list \<Rightarrow> 'a list promise" where
  "promise_all ms = (collect (map fst ms), [Wave (map snd ms)])"

text \<open>
  The network is a parameter. A \<open>fetch_fn\<close> answers one request, given the registration
  number in its body and the time allowed before the abort signal fires.
\<close>

type_synonym fetch_fn = "string \<Rightarrow> int \<Rightarrow> fetch_result"

section \<open>HPCSAService (hpcsa-service.ts)\<close>

definition delay :: "int \<Rightarrow> unit promise" where
  "delay ms = (Inr (), [Delay ms])"

definition response_ok :: "nat \<Rightarrow> bool" where
  "response_ok st = (200 \<le> st \<and> st \<le> 299)"

definition executeSearch :: "fetch_fn \<Rightarrow> string \<Rightarrow> int \<Rightarrow> HPCSAApiResponse promise" where
  "executeSearch fetch registrationNumber timeout =
     (case fetch registrationNumber timeout of
        Aborted \<Rightarrow> Inl AbortError
      | NetworkFailure \<Rightarrow> Inl NetworkError
      | Response st body \<Rightarrow>
          if \<not> response_ok st then Inl (ApiReturned st)
          else (case body of None \<Rightarrow> Inl SyntaxError | Some result \<Rightarrow> Inr result),
      [Fetch registrationNumber timeout])"

text \<open>\<^verbatim>\<open>row[k]\<close>: a position past the end of the row is undefined.\<close>

definition cellAt :: "cell list \<Rightarrow> nat \<Rightarrow> cell" where
  "cellAt row k = (if k < length row then row ! k else None)"

text \<open>\<^verbatim>\<open>c || d\<close> on a cell: null, undefined and the empty string are falsy.\<close>

definition orElse :: "cell \<Rightarrow> string \<Rightarrow> string" where
  "orElse c d = (case c of None \<Rightarrow> d | Some s \<Rightarrow> if s = [] then d else s)"

text \<open>A string that may be null, as a condition: null and the empty string are falsy.\<close>

definition truthy :: "string option \<Rightarrow> bool" where
  "truthy c = (case c of None \<Rightarrow> False | Some s \<Rightarrow> s \<noteq> [])"

definition parseRow :: "string \<Rightarrow> cell list \<Rightarrow> HPCSARecord" where
  "parseRow registrationNumber row =
     \<lparr> name = trim (orElse (cellAt row 0) [] @ '' '' @ orElse (cellAt row 1) []
                   @ '' '' @ orElse (cellAt row 2) []),
       registration = removeWhitespace (orElse (cellAt row 3) registrationNumber),
       city = orElse (cellAt row 4) [],
       status = orElse (cellAt row 7) [] \<rparr>"

definition parseSearchResults :: "HPCSAApiResponse \<Rightarrow> string \<Rightarrow> HPCSARecord list" where
  "parseSearchResults result registrationNumber =
     (if truthy (error result) then []
      else (case data result of
              None \<Rightarrow> []
            | Some rows \<Rightarrow>
                if length rows = 0 then [] else map (parseRow registrationNumber) rows))"

definition resolveTimeout :: "HPCSAApiConfig \<Rightarrow> 'a SearchOptions_scheme \<Rightarrow> int" where
  "resolveTimeout config options =
     (case opt_timeoutMs options of Some t \<Rightarrow> t | None \<Rightarrow> timeoutMs config)"

definition searchSingle ::
  "HPCSAApiConfig \<Rightarrow> fetch_fn \<Rightarrow> string \<Rightarrow> SearchOptions \<Rightarrow> HPCSARecord list promise" where
  "searchSingle config fetch registrationNumber options =
     (let timeout = resolveTimeout config options in
      try_catch
        (await (executeSearch fetch registrationNumber timeout)
           (\<lambda>result. resolve (parseSearchResults result registrationNumber)))
        (\<lambda>err. resolve []))"

definition notFoundResult :: "string \<Rightarrow> BatchSearchResult" where
  "notFoundResult registrationNumber =
     \<lparr> name = [], registration = registrationNumber, city = [], status = [],
       found = False \<rparr>"

definition foundResult :: "HPCSARecord \<Rightarrow> BatchSearchResult" where
  "foundResult r =
     \<lparr> name = name r, registration = registration r, city = city r, status = status r,
       found = True \<rparr>"

text \<open>
  The \<^verbatim>\<open>try\<close> block of \<open>searchSingleAsBatchResult\<close> and the block of its retry hold
  the same statements (the retry starts with a delay); they are written once.
\<close>

definition lookupAttempt :: "fetch_fn \<Rightarrow> string \<Rightarrow> int \<Rightarrow> BatchSearchResult promise" where
  "lookupAttempt fetch registrationNumber timeout =
     await (executeSearch fetch registrationNumber timeout)
       (\<lambda>result.
          case parseSearchResults result registrationNumber of
            [] \<Rightarrow> resolve (notFoundResult registrationNumber)
          | r # _ \<Rightarrow> resolve (foundResult r))"

text \<open>
  A lookup makes at most two requests; \<open>net k\<close> answers its request number \<open>k\<close>, so the
  second answer is free to differ from the first.
\<close>

definition searchSingleAsBatchResult ::
  "HPCSAApiConfig \<Rightarrow> (nat \<Rightarrow> fetch_fn) \<Rightarrow> string \<Rightarrow> SearchOptions
     \<Rightarrow> BatchSearchResult promise" where
  "searchSingleAsBatchResult config net registrationNumber options =
     (let timeout = resolveTimeout config options in
      try_catch (lookupAttempt (net 0) registrationNumber timeout)
        (\<lambda>err.
           try_catch
             (await (delay 500) (\<lambda>_. lookupAttempt (net 1) registrationNumber timeout))
             (\<lambda>retryError. resolve (notFoundResult registrationNumber))))"

text \<open>
  \<^verbatim>\<open>xs.slice(start, end)\<close> with integer arguments: a negative index counts from the
  end, and both are clamped to the array.
\<close>

definition slice :: "'a list \<Rightarrow> int \<Rightarrow> int \<Rightarrow> 'a list" where
  "slice xs start end =
     (let len = int (length xs);
          k = (if start < 0 then max (len + start) 0 else min start len);
          final = (if end < 0 then max (len + end) 0 else min end len)
      in take (nat (final - k)) (drop (nat k) xs))"

text \<open>
  The \<^verbatim>\<open>for\<close> loop of \<open>searchBatch\<close>, with the loop variable \<open>i\<close>, the array
  \<open>results\<close> and the events so far. The step \<open>i += maxConcurrent\<close> need not increase
  \<open>i\<close>, so the loop need not end: the function is partial, and \<open>None\<close> is a run that
  never returns. \<open>w\<close> counts the iterations; \<open>net w k\<close> is the network as seen by the
  lookup at place \<open>k\<close> of wave \<open>w\<close>.
\<close>

partial_function (option) searchBatch_loop ::
  "HPCSAApiConfig \<Rightarrow> (nat \<Rightarrow> nat \<Rightarrow> nat \<Rightarrow> fetch_fn) \<Rightarrow> string list \<Rightarrow> int \<Rightarrow> int \<Rightarrow> int \<Rightarrow> bool
     \<Rightarrow> int \<Rightarrow> nat \<Rightarrow> BatchSearchResult list \<Rightarrow> event list
     \<Rightarrow> BatchSearchResult list promise option" where
  "searchBatch_loop config net registrationNumbers maxConcurrent delayMs timeout progress
       i w results trace =
     (if i < int (length registrationNumbers) then
        (let batch = slice registrationNumbers i (i + maxConcurrent) in
         case promise_all
                (map (\<lambda>(k, reg).
                        searchSingleAsBatchResult config (net w k) reg
                          \<lparr> opt_timeoutMs = Some timeout, opt_maxRetries = None \<rparr>)
                   (enumerate 0 batch)) of
           (Inl e, tr) \<Rightarrow> Some (Inl e, trace @ tr)
         | (Inr batchResults, tr) \<Rightarrow>
             searchBatch_loop config net registrationNumbers maxConcurrent delayMs timeout
               progress (i + maxConcurrent) (Suc w) (results @ batchResults)
               (trace @ tr
                  @ (if progress
                     then [Progress (min (i + maxConcurrent) (int (length registrationNumbers)))
                             (int (length registrationNumbers))]
                     else [])
                  @ (if i + maxConcurrent < int (length registrationNumbers)
                     then [Delay delayMs] else [])))
      else Some (Inr results, trace))"

definition searchBatch ::
  "HPCSAApiConfig \<Rightarrow> (nat \<Rightarrow> nat \<Rightarrow> nat \<Rightarrow> fetch_fn) \<Rightarrow> string list \<Rightarrow> BatchSearchOptions
     \<Rightarrow> BatchSearchResult list promise option" where
  "searchBatch config net registrationNumbers options =
     (let maxConcurrent =
            (case opt_maxConcurrent options of
               Some m \<Rightarrow> m | None \<Rightarrow> maxConcurrentRequests config);
          delayMs =
            (case opt_delayBetweenBatchesMs options of
               Some d \<Rightarrow> d | None \<Rightarrow> delayBetweenBatchesMs config);
          timeout = (case opt_timeoutMs options of Some t \<Rightarrow> t | None \<Rightarrow> timeoutMs config)
      in searchBatch_loop config net registrationNumbers maxConcurrent delayMs timeout
           (onProgress options) 0 0 [] [])"

section \<open>BatchProcessorService.calculateStatistics\<close>

definition calculateStatistics :: "BatchSearchResult list \<Rightarrow> BatchStatistics" where
  "calculateStatistics results =
     \<lparr> activeCount =
         length (filter (\<lambda>r. found r \<and> toLowerCase (status r) = ''active'') results),
       inactiveCount =
         length (filter (\<lambda>r. found r \<and> toLowerCase (status r) \<noteq> ''active'') results),
       notFoundCount = length (filter (\<lambda>r. \<not> found r) results),
       totalProcessed = length results \<rparr>"

text \<open>
  The classification in the words of the specification: every outcome falls into one of
  three buckets.
\<close>

datatype bucket = Active | Inactive | NotFound

definition bucket_of :: "BatchSearchResult \<Rightarrow> bucket" where
  "bucket_of r =
     (if found r then (if toLowerCase (status r) = ''active'' then Active else Inactive)
      else NotFound)"

section \<open>RegistrationExtractorService (registration-extractor-service.ts)\<close>

text \<open>
  A parsed row is a \<^verbatim>\<open>Record<string, unknown>\<close>: a map from column names to values. A
  missing column reads as undefined (\<open>None\<close>). The values a parsed sheet holds are
  strings, numbers, booleans and null.

  The sources use a number in two ways only: as a condition, and through the text
  \<^verbatim>\<open>String(value)\<close> writes for it. A number is therefore given by that text, as
  \<^verbatim>\<open>Number.prototype.toString\<close> writes it: \<open>''42''\<close>, \<open>''-7''\<close>, \<open>''0.5''\<close>, \<open>''1e+21''\<close>,
  \<open>''Infinity''\<close>, \<open>''NaN''\<close>. The text determines the number but for the sign of zero, and
  both zeros are written \<open>''0''\<close>.
\<close>

datatype jsval = JNull | JBool bool | JNum string | JStr string

type_synonym row = "string \<rightharpoonup> jsval"

datatype file_type = Csv | Excel

record ExtractRegistrationOptions =
  fileType :: file_type

record ExtractRegistrationResult =
  registrationNumbers :: "string list"
  skippedCount :: nat
  totalRows :: nat

text \<open>
  The field names of one file type. Three of the four lists are optional for Excel
  files; the list of registration columns is called \<open>registration\<close> in the source.
\<close>

record FieldMapping =
  attended :: "string list option"
  timeInSession :: "string list option"
  professionalCouncilName :: "string list option"
  registrationFields :: "string list"

record FieldMappings =
  csv :: FieldMapping
  excel :: FieldMapping

definition defaultFieldMappings :: FieldMappings where
  "defaultFieldMappings =
     \<lparr> csv =
         \<lparr> attended = Some [''Attended'', ''attended'', ''ATTENDED'', ''Did Attend'', ''did_attend''],
           timeInSession =
             Some [''Time in Session (minutes)'', ''Time in Session'',
                   ''time in session (minutes)'', ''time in session'',
                   ''Time in Session (minutes)'', ''Duration (minutes)'', ''duration''],
           professionalCouncilName =
             Some [''Professional council name'', ''professional council name'',
                   ''Professional Council Name'', ''Council Name'', ''council name'',
                   ''CouncilName''],
           registrationFields =
             [''Professional council number'', ''professional council number'',
              ''Professional Council Number'', ''Council Number'', ''council number'',
              ''CouncilNumber''] \<rparr>,
       excel =
         \<lparr> attended = Some [''Attended'', ''attended'', ''ATTENDED'', ''Did Attend'', ''did_attend''],
           timeInSession =
             Some [''Time in Session (minutes)'', ''Time in Session'',
                   ''time in session (minutes)'', ''time in session'',
                   ''Duration (minutes)'', ''duration''],
           professionalCouncilName =
             Some [''Professional council name'', ''professional council name'',
                   ''Professional Council Name'', ''Council Name'', ''council name'',
                   ''CouncilName''],
           registrationFields =
             [''Registration number'', ''registration number'', ''Registration Number'',
              ''RegistrationNumber'', ''Registration'', ''registration'', ''RegNo'',
              ''regNo''] \<rparr> \<rparr>"

text \<open>\<^verbatim>\<open>this.fieldMappings[fileType]\<close>\<close>

definition mappingFor :: "FieldMappings \<Rightarrow> file_type \<Rightarrow> FieldMapping" where
  "mappingFor fieldMappings ft = (case ft of Csv \<Rightarrow> csv fieldMappings | Excel \<Rightarrow> excel fieldMappings)"

text \<open>\<^verbatim>\<open>String(value)\<close>\<close>

definition stringOf :: "jsval \<Rightarrow> string" where
  "stringOf v =
     (case v of
        JNull \<Rightarrow> ''null''
      | JBool b \<Rightarrow> (if b then ''true'' else ''false'')
      | JNum text \<Rightarrow> text
      | JStr s \<Rightarrow> s)"

text \<open>
  \<^verbatim>\<open>!value\<close> on a value that may be undefined. The falsy numbers are the two zeros and
  NaN.
\<close>

definition falsy :: "jsval option \<Rightarrow> bool" where
  "falsy v = (v = None \<or> v = Some JNull \<or> v = Some (JBool False) \<or> v = Some (JNum ''0'')
                \<or> v = Some (JNum ''NaN'') \<or> v = Some (JStr []))"

text \<open>
  \<^verbatim>\<open>value === undefined || value === null || value === ""\<close>, the test the source
  repeats on a field value.
\<close>

definition blank :: "jsval option \<Rightarrow> bool" where
  "blank v = (v = None \<or> v = Some JNull \<or> v = Some (JStr []))"

fun getFieldValue :: "row \<Rightarrow> string list \<Rightarrow> jsval option" where
  "getFieldValue r [] = None"
| "getFieldValue r (fieldName # possibleFieldNames) =
     (if \<not> blank (r fieldName) then r fieldName else getFieldValue r possibleFieldNames)"

definition shouldProcessRow :: "row \<Rightarrow> string list \<Rightarrow> bool" where
  "shouldProcessRow r attendedFields =
     (case getFieldValue r attendedFields of
        None \<Rightarrow> False
      | Some attendedValue \<Rightarrow>
          if blank (Some attendedValue) then False
          else (let attendedStr = toLowerCase (trim (stringOf attendedValue)) in
                if attendedStr = ''no'' \<or> attendedStr = ''false'' \<or> attendedStr = ''0''
                then False else True))"

definition isHPCSARegistered :: "row \<Rightarrow> string list \<Rightarrow> bool" where
  "isHPCSARegistered r councilNameFields =
     (case getFieldValue r councilNameFields of
        None \<Rightarrow> False
      | Some councilNameValue \<Rightarrow>
          if blank (Some councilNameValue) then False
          else (let councilName = toUpperCase (trim (stringOf councilNameValue)) in
                if councilName \<noteq> ''HPCSA'' then False else True))"

text \<open>The result is a string or null (\<open>None\<close>).\<close>

definition getRegistrationNumber :: "FieldMappings \<Rightarrow> row \<Rightarrow> file_type \<Rightarrow> string option" where
  "getRegistrationNumber fieldMappings r ft =
     (let fields = (if ft = Csv then registrationFields (csv fieldMappings)
                    else registrationFields (excel fieldMappings));
          v = getFieldValue r fields
      in if falsy v then None else (case v of None \<Rightarrow> None | Some x \<Rightarrow> Some (trim (stringOf x))))"

text \<open>
  The body of the \<^verbatim>\<open>for\<close> loop of the method \<open>extract\<close>, on the two variables that reach its
  result: the array \<open>registrationNumbers\<close> and \<open>skippedCount\<close>. The two other counters
  are only written to the log.
\<close>

definition extractRow ::
  "FieldMappings \<Rightarrow> ExtractRegistrationOptions \<Rightarrow> string list \<times> nat \<Rightarrow> row
     \<Rightarrow> string list \<times> nat" where
  "extractRow fieldMappings options st r =
     (case st of (regs, skipped) \<Rightarrow>
        if (case attended (mappingFor fieldMappings (fileType options)) of
              None \<Rightarrow> False
            | Some attendedFields \<Rightarrow>
                length attendedFields > 0 \<and> \<not> shouldProcessRow r attendedFields)
        then (regs, skipped + 1)
        else if (case professionalCouncilName (mappingFor fieldMappings (fileType options)) of
                   None \<Rightarrow> False
                 | Some councilNameFields \<Rightarrow>
                     length councilNameFields > 0 \<and> fileType options = Csv
                     \<and> \<not> isHPCSARegistered r councilNameFields)
        then (regs, skipped + 1)
        else (case getRegistrationNumber fieldMappings r (fileType options) of
                None \<Rightarrow> (regs, skipped + 1)
              | Some regNumber \<Rightarrow>
                  if regNumber = [] then (regs, skipped + 1)
                  else (let regStr = trim regNumber in
                        if regStr \<noteq> [] \<and> regStr \<notin> set regs then (regs @ [regStr], skipped)
                        else (regs, skipped))))"

text \<open>The method \<open>extract\<close>; its name is a keyword of Isabelle, hence the suffix.\<close>

definition extract_rows ::
  "FieldMappings \<Rightarrow> row list \<Rightarrow> ExtractRegistrationOptions \<Rightarrow> ExtractRegistrationResult" where
  "extract_rows fieldMappings rows options =
     (case foldl (extractRow fieldMappings options) ([], 0) rows of
        (regs, skipped) \<Rightarrow>
          \<lparr> registrationNumbers = regs, skippedCount = skipped, totalRows = length rows \<rparr>)"

section \<open>Notions used to state the properties\<close>

text \<open>
  The configuration of the source when no environment variable is set, and the empty
  options object.
\<close>

definition defaultConfig :: HPCSAApiConfig where
  "defaultConfig =
     \<lparr> apiUrl = ''https://hpcsaonline.custhelp.com/cc/ReportController/getDataFromRnow'',
       timeoutMs = 15000, maxRetries = 3, batchSize = 20, maxConcurrentRequests = 5,
       delayBetweenBatchesMs = 200 \<rparr>"

definition noOptions :: SearchOptions where
  "noOptions = \<lparr> opt_timeoutMs = None, opt_maxRetries = None \<rparr>"

definition noBatchOptions :: BatchSearchOptions where
  "noBatchOptions =
     \<lparr> opt_timeoutMs = None, opt_maxRetries = None, opt_batchSize = None,
       opt_maxConcurrent = None, opt_delayBetweenBatchesMs = None, onProgress = False \<rparr>"

text \<open>The values \<open>searchBatch\<close> takes from its options, or else from the configuration.\<close>

definition concurrencyOf :: "HPCSAApiConfig \<Rightarrow> BatchSearchOptions \<Rightarrow> int" where
  "concurrencyOf config options =
     (case opt_maxConcurrent options of Some m \<Rightarrow> m | None \<Rightarrow> maxConcurrentRequests config)"

definition delayOf :: "HPCSAApiConfig \<Rightarrow> BatchSearchOptions \<Rightarrow> int" where
  "delayOf config options =
     (case opt_delayBetweenBatchesMs options of
        Some d \<Rightarrow> d | None \<Rightarrow> delayBetweenBatchesMs config)"

text \<open>The options \<open>searchBatch\<close> hands to each lookup: \<^verbatim>\<open>{ timeoutMs }\<close>.\<close>

definition lookupOptions :: "HPCSAApiConfig \<Rightarrow> BatchSearchOptions \<Rightarrow> SearchOptions" where
  "lookupOptions config options =
     \<lparr> opt_timeoutMs = Some (resolveTimeout config options), opt_maxRetries = None \<rparr>"

text \<open>
  The lookup of the identifier at position \<open>p\<close> of the input, when waves have size \<open>c\<close>:
  it is place \<open>p mod c\<close> of wave \<open>p div c\<close>.
\<close>

definition lookupAt ::
  "HPCSAApiConfig \<Rightarrow> (nat \<Rightarrow> nat \<Rightarrow> nat \<Rightarrow> fetch_fn) \<Rightarrow> string list \<Rightarrow> BatchSearchOptions \<Rightarrow> nat
     \<Rightarrow> nat \<Rightarrow> BatchSearchResult promise" where
  "lookupAt config net regs options c p =
     searchSingleAsBatchResult config (net (p div c) (p mod c)) (regs ! p)
       (lookupOptions config options)"

text \<open>
  What wave number \<open>j\<close> contributes to the events of a run over \<open>n\<close> identifiers: the
  wave itself, the progress call when there is a callback, and the pause when
  identifiers remain.
\<close>

definition waveEvents ::
  "HPCSAApiConfig \<Rightarrow> (nat \<Rightarrow> nat \<Rightarrow> nat \<Rightarrow> fetch_fn) \<Rightarrow> string list \<Rightarrow> BatchSearchOptions \<Rightarrow> nat
     \<Rightarrow> nat \<Rightarrow> event list" where
  "waveEvents config net regs options c j =
     [Wave (map (\<lambda>p. snd (lookupAt config net regs options c p))
              [j * c ..< min (j * c + c) (length regs)])]
     @ (if onProgress options
        then [Progress (int (min (j * c + c) (length regs))) (int (length regs))] else [])
     @ (if j * c + c < length regs then [Delay (delayOf config options)] else [])"

text \<open>The number of waves for \<open>n\<close> identifiers: \<open>n / c\<close> rounded up.\<close>

definition waveCount :: "nat \<Rightarrow> nat \<Rightarrow> nat" where
  "waveCount n c = (n + c - 1) div c"

text \<open>Readings of a list of events.\<close>

fun waveSizes :: "event list \<Rightarrow> nat list" where
  "waveSizes [] = []"
| "waveSizes (Wave ls # es) = length ls # waveSizes es"
| "waveSizes (e # es) = waveSizes es"

fun progressCalls :: "event list \<Rightarrow> (int \<times> int) list" where
  "progressCalls [] = []"
| "progressCalls (Progress a b # es) = (a, b) # progressCalls es"
| "progressCalls (e # es) = progressCalls es"

fun delays :: "event list \<Rightarrow> int list" where
  "delays [] = []"
| "delays (Delay ms # es) = ms # delays es"
| "delays (e # es) = delays es"

text \<open>Strings joined with a separator between neighbours.\<close>

fun joinWith :: "string \<Rightarrow> string list \<Rightarrow> string" where
  "joinWith sep [] = []"
| "joinWith sep [x] = x"
| "joinWith sep (x # y # ys) = x @ sep @ joinWith sep (y # ys)"

text \<open>
  The registration number a row offers: \<open>None\<close> for a row the filters of \<open>extract_rows\<close>
  reject or that has no registration number, \<open>Some\<close> of the trimmed number for a
  qualifying row.
\<close>

definition candidate ::
  "FieldMappings \<Rightarrow> ExtractRegistrationOptions \<Rightarrow> row \<Rightarrow> string option" where
  "candidate fieldMappings options r =
     (let m = mappingFor fieldMappings (fileType options) in
      if (case attended m of None \<Rightarrow> False
          | Some fs \<Rightarrow> fs \<noteq> [] \<and> \<not> shouldProcessRow r fs) then None
      else if (case professionalCouncilName m of None \<Rightarrow> False
               | Some fs \<Rightarrow> fs \<noteq> [] \<and> fileType options = Csv \<and> \<not> isHPCSARegistered r fs)
      then None
      else (case getRegistrationNumber fieldMappings r (fileType options) of
              None \<Rightarrow> None
            | Some regNumber \<Rightarrow> if regNumber = [] then None else Some regNumber))"

text \<open>The elements of a list in the order of their first occurrence.\<close>

fun firstOccurrences :: "'a list \<Rightarrow> 'a list \<Rightarrow> 'a list" where
  "firstOccurrences seen [] = seen"
| "firstOccurrences seen (x # xs) =
     (if x \<in> set seen then firstOccurrences seen xs else firstOccurrences (seen @ [x]) xs)"

text \<open>The no-break space, U+00A0.\<close>

definition nbsp :: char where
  "nbsp = CHR 0xA0"

text \<open>
  Two responses of the remote endpoint, used as examples. In the first row of the first
  one a name part ends with a no-break space, and the registration has a no-break space
  at its start and another inside.
\<close>

definition twoRows :: HPCSAApiResponse where
  "twoRows =
     \<lparr> data = Some [[Some ''Dr'', Some ''Dlamini'', Some (''Thandi'' @ [nbsp]),
                      Some (nbsp # ''MP 012'' @ nbsp # ''3456''),
                      Some ''Durban'', Some ''4001'', Some ''Medical'', Some ''Active''],
                     [Some ''Mr'', None, Some ''Other'']],
       headers = [], error = None \<rparr>"




text \<open>
  A remote register with two practitioners, an active and an inactive one, and inputs for
  it.
\<close>

definition sampleRemote :: fetch_fn where
  "sampleRemote reg t =
     (if reg = ''MP0001'' then
        Response 200 (Some \<lparr> data = Some [[Some ''Dr'', Some ''A'', Some ''One'', Some ''MP 0001'',
                                               Some ''Durban'', None, None, Some ''Active'']],
                               headers = [], error = None \<rparr>)
      else if reg = ''MP0002'' then
        Response 200 (Some \<lparr> data = Some [[Some ''Dr'', Some ''B'', Some ''Two'', Some ''MP 0002'',
                                               Some ''Soweto'', None, None, Some ''Inactive'']],
                               headers = [], error = None \<rparr>)
      else Response 200 (Some \<lparr> data = Some [], headers = [], error = None \<rparr>))"

definition threeIds :: "string list" where
  "threeIds = [''MP0001'', ''MP0002'', ''ZZ9999'']"

definition fiveIds :: "string list" where
  "fiveIds = [''MP0001'', ''MP0002'', ''MP0003'', ''MP0004'', ''MP0005'']"

definition twoAtATime :: BatchSearchOptions where
  "twoAtATime =
     \<lparr> opt_timeoutMs = None, opt_maxRetries = None, opt_batchSize = None,
       opt_maxConcurrent = Some 2, opt_delayBetweenBatchesMs = Some 100, onProgress = True \<rparr>"

text \<open>
  Rows of an attendance report, as the CSV parser yields them: two attendees, a repeat of
  the first, one who did not attend (the answer ends with a no-break space), one of
  another council, one whose number is a no-break space alone, a repeat of the second
  with a no-break space before the number, and one whose number the sheet holds as the
  number \<open>1e21\<close>, which \<^verbatim>\<open>String\<close> writes \<open>''1e+21''\<close>.
\<close>

definition attendee :: "string \<Rightarrow> string \<Rightarrow> jsval \<Rightarrow> row" where
  "attendee didAttend council number =
     map_of [(''Attended'', JStr didAttend), (''Professional council name'', JStr council),
             (''Professional council number'', number)]"

definition sampleRows :: "row list" where
  "sampleRows =
     [attendee ''Yes'' ''HPCSA'' (JStr '' MP0001 ''), attendee ''Yes'' ''hpcsa'' (JStr ''MP0002''),
      attendee ''Yes'' ''HPCSA'' (JStr ''MP0001''), attendee (''No'' @ [nbsp]) ''HPCSA'' (JStr ''MP0003''),
      attendee ''Yes'' ''SANC'' (JStr ''MP0004''), attendee ''Yes'' ''HPCSA'' (JStr [nbsp]),
      attendee ''Yes'' ''HPCSA'' (JStr (nbsp # ''MP0002'')),
      attendee ''Yes'' ''HPCSA'' (JNum ''1e+21'')]"

section \<open>Statistics\<close>

lemma three_way_count:
  "length (filter (\<lambda>r. F r \<and> A r) xs) + length (filter (\<lambda>r. F r \<and> \<not> A r) xs)
     + length (filter (\<lambda>r. \<not> F r) xs) = length xs"
  by (induction xs) auto

text \<open>
  Claim C2. For every list of outcomes, \<open>calculateStatistics\<close> counts as active the
  outcomes that are found and whose lower-cased status is "active", as inactive the found
  outcomes with any other status, as not found the outcomes that are not found; each
  outcome is in exactly one of the three buckets, \<open>totalProcessed\<close> is the length of the
  list, and the three counts add up to \<open>totalProcessed\<close>.
\<close>

theorem calculateStatistics_partition:
  "activeCount (calculateStatistics rs) = length (filter (\<lambda>r. bucket_of r = Active) rs)
   \<and> inactiveCount (calculateStatistics rs) = length (filter (\<lambda>r. bucket_of r = Inactive) rs)
   \<and> notFoundCount (calculateStatistics rs) = length (filter (\<lambda>r. bucket_of r = NotFound) rs)
   \<and> totalProcessed (calculateStatistics rs) = length rs
   \<and> activeCount (calculateStatistics rs) + inactiveCount (calculateStatistics rs)
       + notFoundCount (calculateStatistics rs) = totalProcessed (calculateStatistics rs)
   \<and> (bucket_of r = Active \<longleftrightarrow> found r \<and> toLowerCase (status r) = ''active'')
   \<and> (bucket_of r = Inactive \<longleftrightarrow> found r \<and> toLowerCase (status r) \<noteq> ''active'')
   \<and> (bucket_of r = NotFound \<longleftrightarrow> \<not> found r)"
proof -
  have a: "(\<lambda>r. bucket_of r = Active) = (\<lambda>r. found r \<and> toLowerCase (status r) = ''active'')"
    by (rule ext) (simp add: bucket_of_def)
  have i: "(\<lambda>r. bucket_of r = Inactive) = (\<lambda>r. found r \<and> toLowerCase (status r) \<noteq> ''active'')"
    by (rule ext) (simp add: bucket_of_def)
  have n: "(\<lambda>r. bucket_of r = NotFound) = (\<lambda>r. \<not> found r)"
    by (rule ext) (simp add: bucket_of_def)
  have s: "activeCount (calculateStatistics rs) + inactiveCount (calculateStatistics rs)
       + notFoundCount (calculateStatistics rs) = totalProcessed (calculateStatistics rs)"
    unfolding calculateStatistics_def
    using three_way_count [of found "\<lambda>r. toLowerCase (status r) = ''active''" rs] by simp
  show ?thesis
    using s by (simp add: a i n) (simp add: calculateStatistics_def bucket_of_def)
qed

section \<open>Single lookups\<close>

lemmas promise_defs = await_def try_catch_def resolve_def delay_def

lemma executeSearch_trace: "snd (executeSearch fetch reg t) = [Fetch reg t]"
  by (simp add: executeSearch_def)

lemma lookupAttempt_trace: "snd (lookupAttempt fetch reg t) = [Fetch reg t]"
  using executeSearch_trace [of fetch reg t]
  by (cases "executeSearch fetch reg t")
     (auto simp: lookupAttempt_def promise_defs split: sum.splits list.splits)

lemma lookupAttempt_fails:
  "isl (fst (lookupAttempt fetch reg t)) = isl (fst (executeSearch fetch reg t))"
  by (auto simp: lookupAttempt_def promise_defs split: prod.splits sum.splits list.splits)

lemma lookupAttempt_value:
  "fst (executeSearch fetch reg t) = Inr result \<Longrightarrow>
   fst (lookupAttempt fetch reg t)
     = Inr (case parseSearchResults result reg of
              [] \<Rightarrow> notFoundResult reg | r # _ \<Rightarrow> foundResult r)"
  by (cases "executeSearch fetch reg t")
     (auto simp: lookupAttempt_def promise_defs split: list.splits)

lemma executeSearch_fails_iff:
  "isl (fst (executeSearch fetch reg t))
     = (fetch reg t = Aborted \<or> fetch reg t = NetworkFailure
        \<or> (\<exists>st body. fetch reg t = Response st body \<and> (\<not> response_ok st \<or> body = None)))"
  by (auto simp: executeSearch_def split: fetch_result.splits option.splits)

lemma searchSingleAsBatchResult_resolves:
  "\<exists>r. fst (searchSingleAsBatchResult config net reg options) = Inr r"
  by (auto simp: searchSingleAsBatchResult_def promise_defs Let_def split: prod.splits sum.splits)

lemma searchSingleAsBatchResult_first_ok:
  assumes "\<not> isl (fst (executeSearch (net 0) reg (resolveTimeout config options)))"
  shows "searchSingleAsBatchResult config net reg options
           = lookupAttempt (net 0) reg (resolveTimeout config options)"
  using assms lookupAttempt_fails [of "net 0" reg "resolveTimeout config options"]
  by (cases "lookupAttempt (net 0) reg (resolveTimeout config options)")
     (auto simp: searchSingleAsBatchResult_def promise_defs Let_def split: sum.splits)

lemma searchSingleAsBatchResult_first_fails:
  assumes "isl (fst (executeSearch (net 0) reg (resolveTimeout config options)))"
  shows "searchSingleAsBatchResult config net reg options
           = (case fst (lookupAttempt (net 1) reg (resolveTimeout config options)) of
                Inl e \<Rightarrow> Inr (notFoundResult reg) | Inr v \<Rightarrow> Inr v,
              [Fetch reg (resolveTimeout config options), Delay 500,
               Fetch reg (resolveTimeout config options)])"
proof -
  let ?t = "resolveTimeout config options"
  obtain e where e: "fst (lookupAttempt (net 0) reg ?t) = Inl e"
    using assms lookupAttempt_fails [of "net 0" reg ?t] by (auto simp: isl_def)
  have t0: "lookupAttempt (net 0) reg ?t = (Inl e, [Fetch reg ?t])"
    using e lookupAttempt_trace [of "net 0" reg ?t] by (simp add: prod_eq_iff)
  show ?thesis
    using lookupAttempt_trace [of "net 1" reg ?t]
    by (cases "lookupAttempt (net 1) reg ?t")
       (auto simp: searchSingleAsBatchResult_def t0 promise_defs Let_def split: sum.splits)
qed

lemma default_timeout: "resolveTimeout defaultConfig noOptions = 15000"
  by (simp add: resolveTimeout_def defaultConfig_def noOptions_def)

text \<open>
  Claim C3. A lookup of \<open>searchSingleAsBatchResult\<close> whose first request fails (the
  request is aborted by the timeout, the network fails, the status is not a success or
  the body is not JSON) waits 500 ms and makes exactly one more request, with the same
  registration number and timeout; a lookup whose first request succeeds makes no other.
  When the second request fails too, the promise resolves to an outcome with
  \<open>found = False\<close> and empty name, city and status; nothing is thrown. The value of
  \<open>maxRetries\<close>, in the configuration or in the options, changes nothing.
\<close>

theorem searchSingleAsBatchResult_retries_once:
  "(isl (fst (executeSearch (net 0) reg (resolveTimeout config options))) \<longrightarrow>
      snd (searchSingleAsBatchResult config net reg options)
        = [Fetch reg (resolveTimeout config options), Delay 500,
           Fetch reg (resolveTimeout config options)])
   \<and> (\<not> isl (fst (executeSearch (net 0) reg (resolveTimeout config options))) \<longrightarrow>
      snd (searchSingleAsBatchResult config net reg options)
        = [Fetch reg (resolveTimeout config options)])
   \<and> (isl (fst (executeSearch (net 0) reg (resolveTimeout config options)))
      \<and> isl (fst (executeSearch (net 1) reg (resolveTimeout config options))) \<longrightarrow>
      fst (searchSingleAsBatchResult config net reg options)
        = Inr \<lparr> name = [], registration = reg, city = [], status = [], found = False \<rparr>)
   \<and> searchSingleAsBatchResult (config\<lparr>maxRetries := m\<rparr>) net reg
        (options\<lparr>opt_maxRetries := m'\<rparr>)
       = searchSingleAsBatchResult config net reg options"
proof -
  let ?t = "resolveTimeout config options"
  have a: "isl (fst (executeSearch (net 0) reg ?t)) \<longrightarrow>
      snd (searchSingleAsBatchResult config net reg options)
        = [Fetch reg ?t, Delay 500, Fetch reg ?t]"
    by (simp add: searchSingleAsBatchResult_first_fails)
  have b: "\<not> isl (fst (executeSearch (net 0) reg ?t)) \<longrightarrow>
      snd (searchSingleAsBatchResult config net reg options) = [Fetch reg ?t]"
    by (simp add: searchSingleAsBatchResult_first_ok lookupAttempt_trace)
  have c: "isl (fst (executeSearch (net 0) reg ?t)) \<and> isl (fst (executeSearch (net 1) reg ?t)) \<longrightarrow>
      fst (searchSingleAsBatchResult config net reg options)
        = Inr \<lparr> name = [], registration = reg, city = [], status = [], found = False \<rparr>"
    using lookupAttempt_fails [of "net 1" reg ?t]
    by (auto simp: searchSingleAsBatchResult_first_fails notFoundResult_def isl_def split: sum.splits)
  have d: "searchSingleAsBatchResult (config\<lparr>maxRetries := m\<rparr>) net reg
            (options\<lparr>opt_maxRetries := m'\<rparr>)
           = searchSingleAsBatchResult config net reg options"
    by (simp add: searchSingleAsBatchResult_def resolveTimeout_def split: option.splits)
  show ?thesis using a b c d by blast
qed

theorem searchSingleAsBatchResult_retries_once_witness:
  "isl (fst (executeSearch (\<lambda>_ _. Aborted) ''MP0001'' 15000))
   \<and> searchSingleAsBatchResult defaultConfig (\<lambda>_ _ _. Aborted) ''MP0001'' noOptions
       = (Inr \<lparr> name = [], registration = ''MP0001'', city = [], status = [], found = False \<rparr>,
          [Fetch ''MP0001'' 15000, Delay 500, Fetch ''MP0001'' 15000])
   \<and> searchSingleAsBatchResult (defaultConfig\<lparr>maxRetries := 0\<rparr>) (\<lambda>_ _ _. Aborted) ''MP0001''
        (noOptions\<lparr>opt_maxRetries := Some 7\<rparr>)
       = searchSingleAsBatchResult defaultConfig (\<lambda>_ _ _. Aborted) ''MP0001'' noOptions"
proof -
  have h: "isl (fst (executeSearch (\<lambda>_ _. Aborted) ''MP0001'' 15000))"
    by (simp add: executeSearch_def)
  show ?thesis
    using searchSingleAsBatchResult_retries_once
            [of "\<lambda>_ _ _. Aborted" "''MP0001''" defaultConfig noOptions 0 "Some 7"] h
    by (simp add: default_timeout prod_eq_iff)
qed

text \<open>
  Claim C9. The promise of \<open>searchSingle\<close> always resolves: it never rejects. It makes
  one request and no other, with no delay. When that request is aborted by the timeout,
  fails, has a status that is not a success or a body that is not JSON, the result is
  the empty list of records, the very result of a response that holds no row.
\<close>

theorem searchSingle_never_throws:
  "(\<exists>records. fst (searchSingle config fetch reg options) = Inr records)
   \<and> snd (searchSingle config fetch reg options) = [Fetch reg (resolveTimeout config options)]
   \<and> (fetch reg (resolveTimeout config options) = Aborted
        \<or> fetch reg (resolveTimeout config options) = NetworkFailure
        \<or> (\<exists>st body. fetch reg (resolveTimeout config options) = Response st body
               \<and> \<not> response_ok st)
        \<or> (\<exists>st. fetch reg (resolveTimeout config options) = Response st None)
      \<longrightarrow> fst (searchSingle config fetch reg options) = Inr []
          \<and> fst (searchSingle config fetch reg options)
             = fst (searchSingle config
                      (\<lambda>_ _. Response 200 (Some \<lparr> data = Some [], headers = [], error = None \<rparr>))
                      reg options))"
proof -
  let ?t = "resolveTimeout config options"
  let ?empty = "\<lambda>_ _. Response 200 (Some \<lparr> data = Some [], headers = [], error = None \<rparr>)"
  have run: "searchSingle config fetch reg options
      = (case fst (executeSearch fetch reg ?t) of
           Inl e \<Rightarrow> Inr [] | Inr result \<Rightarrow> Inr (parseSearchResults result reg),
         [Fetch reg ?t])"
    using executeSearch_trace [of fetch reg ?t]
    by (cases "executeSearch fetch reg ?t")
       (auto simp: searchSingle_def promise_defs Let_def split: sum.splits)
  have resolves: "\<exists>records. fst (searchSingle config fetch reg options) = Inr records"
    unfolding run by (simp split: sum.splits)
  have one_request: "snd (searchSingle config fetch reg options) = [Fetch reg ?t]"
    unfolding run by simp
  have no_row: "fst (searchSingle config ?empty reg options) = Inr []"
    by (simp add: searchSingle_def executeSearch_def promise_defs Let_def response_ok_def
          parseSearchResults_def truthy_def)
  have failure: "fst (searchSingle config fetch reg options) = Inr []"
    if "isl (fst (executeSearch fetch reg ?t))"
    using that unfolding run by (auto simp: isl_def)
  show ?thesis
    using resolves one_request no_row failure executeSearch_fails_iff [of fetch reg ?t]
    by auto
qed

theorem searchSingle_never_throws_witness:
  "searchSingle defaultConfig (\<lambda>_ _. Aborted) ''MP0001'' noOptions
     = (Inr [], [Fetch ''MP0001'' 15000])
   \<and> searchSingle defaultConfig (\<lambda>_ _. Response 503 None) ''MP0001'' noOptions
     = (Inr [], [Fetch ''MP0001'' 15000])
   \<and> searchSingle defaultConfig (\<lambda>_ _. Response 200 None) ''MP0001'' noOptions
     = (Inr [], [Fetch ''MP0001'' 15000])"
  using searchSingle_never_throws [of defaultConfig "\<lambda>_ _. Aborted" "''MP0001''" noOptions]
    searchSingle_never_throws [of defaultConfig "\<lambda>_ _. Response 503 None" "''MP0001''" noOptions]
    searchSingle_never_throws [of defaultConfig "\<lambda>_ _. Response 200 None" "''MP0001''" noOptions]
  by (simp add: default_timeout prod_eq_iff response_ok_def)

section \<open>Parsing the response\<close>


lemma parseSearchResults_rows:
  "\<not> truthy (error result) \<Longrightarrow> data result = Some (r0 # rest) \<Longrightarrow>
   parseSearchResults result reg = map (parseRow reg) (r0 # rest)"
  by (simp add: parseSearchResults_def)

lemma lookup_of_response:
  assumes "net 0 reg (resolveTimeout config options) = Response st (Some result)"
    and "response_ok st"
  shows "searchSingleAsBatchResult config net reg options
           = (Inr (case parseSearchResults result reg of
                     [] \<Rightarrow> notFoundResult reg | r # _ \<Rightarrow> foundResult r),
              [Fetch reg (resolveTimeout config options)])"
proof -
  let ?t = "resolveTimeout config options"
  have ex: "fst (executeSearch (net 0) reg ?t) = Inr result"
    using assms by (simp add: executeSearch_def)
  then have "\<not> isl (fst (executeSearch (net 0) reg ?t))" by simp
  then have "searchSingleAsBatchResult config net reg options = lookupAttempt (net 0) reg ?t"
    by (rule searchSingleAsBatchResult_first_ok)
  then show ?thesis
    using lookupAttempt_value [OF ex] lookupAttempt_trace [of "net 0" reg ?t]
    by (simp add: prod_eq_iff)
qed

text \<open>
  Claim C5. When the response has no error text and at least one row, every row gives one
  record, by fixed positions: the name is positions 0, 1 and 2 joined with single spaces
  and trimmed, the registration is position 3 or, when position 3 is missing, null or
  empty, the registration number asked for, with all white space removed, the city is
  position 4 and the status position 7, each the empty string when missing. No other
  position is read. The outcome of a batch lookup is the record of the first row, with
  \<open>found = True\<close>.
\<close>
theorem parseSearchResults_fixed_positions:
  assumes "\<not> truthy (error result)" and "data result = Some (r0 # rest)"
  shows "parseSearchResults result reg
           = map (\<lambda>r. \<lparr> name = trim (joinWith '' '' [orElse (cellAt r 0) [], orElse (cellAt r 1) [],
                                                     orElse (cellAt r 2) []]),
                         registration = removeWhitespace (orElse (cellAt r 3) reg),
                         city = orElse (cellAt r 4) [],
                         status = orElse (cellAt r 7) [] \<rparr>) (r0 # rest)
       \<and> (length r \<le> 3 \<or> r ! 3 = None \<or> r ! 3 = Some [] \<longrightarrow>
            registration (parseRow reg r) = removeWhitespace reg)
       \<and> (3 < length r \<and> r ! 3 = Some s \<and> s \<noteq> [] \<longrightarrow>
            registration (parseRow reg r) = removeWhitespace s)
       \<and> (cellAt r 0 = cellAt r' 0 \<and> cellAt r 1 = cellAt r' 1 \<and> cellAt r 2 = cellAt r' 2
          \<and> cellAt r 3 = cellAt r' 3 \<and> cellAt r 4 = cellAt r' 4 \<and> cellAt r 7 = cellAt r' 7 \<longrightarrow>
            parseRow reg r = parseRow reg r')
       \<and> (response_ok st \<and> net 0 reg (resolveTimeout config options) = Response st (Some result) \<longrightarrow>
            fst (searchSingleAsBatchResult config net reg options)
              = Inr (foundResult (parseRow reg r0)))"
proof -
  have a: "parseSearchResults result reg = map (parseRow reg) (r0 # rest)"
    using assms by (rule parseSearchResults_rows)
  have b: "parseRow reg = (\<lambda>r. \<lparr> name = trim (joinWith '' '' [orElse (cellAt r 0) [], orElse (cellAt r 1) [],
                                                     orElse (cellAt r 2) []]),
                         registration = removeWhitespace (orElse (cellAt r 3) reg),
                         city = orElse (cellAt r 4) [],
                         status = orElse (cellAt r 7) [] \<rparr>)"
    by (rule ext) (simp add: parseRow_def)
  have c: "length r \<le> 3 \<or> r ! 3 = None \<or> r ! 3 = Some [] \<longrightarrow>
            registration (parseRow reg r) = removeWhitespace reg"
    by (auto simp: parseRow_def cellAt_def orElse_def)
  have d: "3 < length r \<and> r ! 3 = Some s \<and> s \<noteq> [] \<longrightarrow>
            registration (parseRow reg r) = removeWhitespace s"
    by (auto simp: parseRow_def cellAt_def orElse_def)
  have e: "cellAt r 0 = cellAt r' 0 \<and> cellAt r 1 = cellAt r' 1 \<and> cellAt r 2 = cellAt r' 2
          \<and> cellAt r 3 = cellAt r' 3 \<and> cellAt r 4 = cellAt r' 4 \<and> cellAt r 7 = cellAt r' 7 \<longrightarrow>
            parseRow reg r = parseRow reg r'"
    by (simp add: parseRow_def)
  have f: "response_ok st \<and> net 0 reg (resolveTimeout config options) = Response st (Some result) \<longrightarrow>
            fst (searchSingleAsBatchResult config net reg options)
              = Inr (foundResult (parseRow reg r0))"
    using lookup_of_response [of net reg config options st result] by (auto simp: a)
  show ?thesis using a c d e f unfolding b by blast
qed

theorem parseSearchResults_fixed_positions_witness:
  "parseSearchResults twoRows ''MP 7''
     = [\<lparr> name = ''Dr Dlamini Thandi'', registration = ''MP0123456'', city = ''Durban'',
          status = ''Active'' \<rparr>,
        \<lparr> name = ''Mr  Other'', registration = ''MP7'', city = [], status = [] \<rparr>]
   \<and> fst (searchSingleAsBatchResult defaultConfig (\<lambda>_ _ _. Response 200 (Some twoRows))
            ''MP 7'' noOptions)
     = Inr \<lparr> name = ''Dr Dlamini Thandi'', registration = ''MP0123456'', city = ''Durban'',
             status = ''Active'', found = True \<rparr>"
proof -
  have h1: "\<not> truthy (error twoRows)" by (simp add: twoRows_def truthy_def)
  have h2: "data twoRows = Some ([Some ''Dr'', Some ''Dlamini'', Some (''Thandi'' @ [nbsp]),
                      Some (nbsp # ''MP 012'' @ nbsp # ''3456''),
                      Some ''Durban'', Some ''4001'', Some ''Medical'', Some ''Active'']
                     # [[Some ''Mr'', None, Some ''Other'']])"
    by (simp add: twoRows_def)
  show ?thesis
    using parseSearchResults_fixed_positions [OF h1 h2, where reg = "''MP 7''" and r = "[]"
        and r' = "[]" and s = "[]" and st = 200
        and net = "\<lambda>_ _ _. Response 200 (Some twoRows)" and config = defaultConfig
        and options = noOptions]
    by (simp add: cellAt_def orElse_def trim_def removeWhitespace_def isWhitespace_def
          foundResult_def parseRow_def response_ok_def nbsp_def)
qed




section \<open>The loop of searchBatch\<close>

lemma collect_Inr: "collect (map Inr vs) = Inr vs"
  by (induction vs) simp_all

lemma slice_wave:
  assumes "i \<le> length xs" and "0 < c"
  shows "slice xs (int i) (int i + int c) = take c (drop i xs)"
proof (cases "i + c \<le> length xs")
  case True
  then have "min (int i + int c) (int (length xs)) = int i + int c" by simp
  then show ?thesis using assms by (simp add: slice_def Let_def)
next
  case False
  then have "min (int i + int c) (int (length xs)) = int (length xs)" by simp
  moreover have "nat (int (length xs) - int i) = length xs - i" by simp
  ultimately show ?thesis using assms False by (simp add: slice_def Let_def)
qed

lemma enumerate_nth_map:
  "map (\<lambda>(k, x). f k x) (enumerate 0 xs) = map (\<lambda>k. f k (xs ! k)) [0 ..< length xs]"
proof (rule nth_equalityI)
  show "length (map (\<lambda>(k, x). f k x) (enumerate 0 xs)) = length (map (\<lambda>k. f k (xs ! k)) [0 ..< length xs])"
    by simp
next
  fix i assume "i < length (map (\<lambda>(k, x). f k x) (enumerate 0 xs))"
  then have i: "i < length xs" by simp
  then show "map (\<lambda>(k, x). f k x) (enumerate 0 xs) ! i = map (\<lambda>k. f k (xs ! k)) [0 ..< length xs] ! i"
    by (simp add: nth_enumerate_eq)
qed

lemma wave_positions:
  assumes "0 < c" and "w * c < length xs"
  shows "map (\<lambda>(k, x). f w k x) (enumerate 0 (slice xs (int (w * c)) (int (w * c) + int c)))
       = map (\<lambda>p. f (p div c) (p mod c) (xs ! p)) [w * c ..< min (w * c + c) (length xs)]"
proof -
  let ?i = "w * c"
  let ?b = "take c (drop ?i xs)"
  have s: "slice xs (int ?i) (int ?i + int c) = ?b"
    using assms by (intro slice_wave) simp_all
  have len: "length ?b = min (?i + c) (length xs) - ?i"
    using assms by (auto simp: min_def)
  have "map (\<lambda>k. f w k (?b ! k)) [0 ..< length ?b]
      = map (\<lambda>p. f (p div c) (p mod c) (xs ! p)) [?i ..< min (?i + c) (length xs)]"
  proof (rule nth_equalityI)
    show "length (map (\<lambda>k. f w k (?b ! k)) [0 ..< length ?b])
        = length (map (\<lambda>p. f (p div c) (p mod c) (xs ! p)) [?i ..< min (?i + c) (length xs)])"
      using len by simp
  next
    fix k assume "k < length (map (\<lambda>k. f w k (?b ! k)) [0 ..< length ?b])"
    then have k: "k < length ?b" by simp
    then have kc: "k < c" and kn: "?i + k < length xs" by auto
    have d: "(?i + k) div c = w" using kc assms(1) by simp
    have m: "(?i + k) mod c = k" using kc by simp
    have b: "?b ! k = xs ! (?i + k)" using k kn by simp
    have "?i + k < min (?i + c) (length xs)" using kc kn by simp
    then have r: "[?i ..< min (?i + c) (length xs)] ! k = ?i + k"
      by (rule nth_upt)
    have kl: "k < min (?i + c) (length xs) - ?i" using kc kn by simp
    show "map (\<lambda>k. f w k (?b ! k)) [0 ..< length ?b] ! k
        = map (\<lambda>p. f (p div c) (p mod c) (xs ! p)) [?i ..< min (?i + c) (length xs)] ! k"
      using k kl by (simp add: d m b r del: length_take length_drop nth_take nth_drop)
  qed
  then show ?thesis by (simp only: s enumerate_nth_map)
qed


lemma collect_resolved:
  assumes "\<And>p. \<exists>r. fst (L p) = Inr r"
  shows "collect (map fst (map L ps)) = Inr (map (\<lambda>p. projr (fst (L p))) ps)"
proof -
  have "map fst (map L ps) = map Inr (map (\<lambda>p. projr (fst (L p))) ps)"
  proof (induction ps)
    case Nil
    show ?case by simp
  next
    case (Cons p ps)
    obtain r where "fst (L p) = Inr r" using assms by blast
    then show ?case using Cons by simp
  qed
  then show ?thesis by (simp only: collect_Inr)
qed

lemma lookupAt_resolves: "\<exists>r. fst (lookupAt config net regs options c p) = Inr r"
  unfolding lookupAt_def by (rule searchSingleAsBatchResult_resolves)

lemma waveCount_done: "0 < c \<Longrightarrow> n \<le> w * c \<Longrightarrow> waveCount n c \<le> w"
proof -
  assume c: "0 < c" and n: "n \<le> w * c"
  have "n + c - 1 < (Suc w) * c" using c n by simp
  then have "(n + c - 1) div c < Suc w" using c by (simp add: div_less_iff_less_mult)
  then show ?thesis by (simp add: waveCount_def)
qed

lemma waveCount_more: "0 < c \<Longrightarrow> w * c < n \<Longrightarrow> w < waveCount n c"
proof -
  assume c: "0 < c" and n: "w * c < n"
  have "Suc w * c \<le> n + c - 1" using c n by simp
  then have "Suc w \<le> (n + c - 1) div c" using c by (simp add: less_eq_div_iff_mult_less_eq)
  then show ?thesis by (simp add: waveCount_def)
qed

lemma searchBatch_loop_done:
  "\<not> i < int (length regs) \<Longrightarrow>
   searchBatch_loop config net regs mc d t prog i w results trace = Some (Inr results, trace)"
  by (subst searchBatch_loop.simps) simp

lemma searchBatch_loop_step:
  assumes "i < int (length regs)"
    and "promise_all
           (map (\<lambda>(k, reg). searchSingleAsBatchResult config (net w k) reg
                               \<lparr> opt_timeoutMs = Some t, opt_maxRetries = None \<rparr>)
              (enumerate 0 (slice regs i (i + mc)))) = (Inr batchResults, tr)"
  shows "searchBatch_loop config net regs mc d t prog i w results trace
       = searchBatch_loop config net regs mc d t prog (i + mc) (Suc w) (results @ batchResults)
           (trace @ tr
              @ (if prog then [Progress (min (i + mc) (int (length regs))) (int (length regs))]
                 else [])
              @ (if i + mc < int (length regs) then [Delay d] else []))"
  using assms by (subst searchBatch_loop.simps) (simp add: Let_def)

lemma searchBatch_loop_closed:
  assumes c: "0 < c"
  shows "searchBatch_loop config net regs (int c) (delayOf config options)
           (resolveTimeout config options) (onProgress options) (int (w * c)) w results trace
       = Some (Inr (results @ map (\<lambda>p. projr (fst (lookupAt config net regs options c p)))
                                 [w * c ..< length regs]),
               trace @ concat (map (waveEvents config net regs options c)
                                 [w ..< waveCount (length regs) c]))"
proof (induction "length regs - w * c" arbitrary: w results trace rule: less_induct)
  case less
  let ?n = "length regs"
  let ?L = "lookupAt config net regs options c"
  show ?case
  proof (cases "w * c < ?n")
    case False
    then have e2: "[w ..< waveCount ?n c] = []" using c by (simp add: waveCount_done)
    have e1: "[w * c ..< ?n] = []" using False by simp
    have nl: "\<not> int (w * c) < int ?n" using False by (simp only: of_nat_less_iff not_False_eq_True)
    show ?thesis unfolding searchBatch_loop_done [OF nl] e1 e2 by simp
  next
    case True
    let ?m = "min (w * c + c) ?n"
    let ?ps = "[w * c ..< ?m]"
    have wave: "map (\<lambda>(k, reg). searchSingleAsBatchResult config (net w k) reg
                      \<lparr> opt_timeoutMs = Some (resolveTimeout config options), opt_maxRetries = None \<rparr>)
                  (enumerate 0 (slice regs (int (w * c)) (int (w * c) + int c)))
              = map ?L ?ps"
      using wave_positions [OF c True, of "\<lambda>w k reg. searchSingleAsBatchResult config (net w k) reg
                      \<lparr> opt_timeoutMs = Some (resolveTimeout config options), opt_maxRetries = None \<rparr>"]
      by (simp add: lookupAt_def lookupOptions_def)
    have all: "promise_all (map ?L ?ps)
                = (Inr (map (\<lambda>p. projr (fst (?L p))) ?ps), [Wave (map (\<lambda>p. snd (?L p)) ?ps)])"
      using collect_resolved [of ?L ?ps] lookupAt_resolves [of config net regs options c]
      by (simp add: promise_all_def comp_def)
    have next_i: "int (w * c) + int c = int (Suc w * c)" by simp
    have dec: "?n - Suc w * c < ?n - w * c" using True c by simp
    have step: "searchBatch_loop config net regs (int c) (delayOf config options)
           (resolveTimeout config options) (onProgress options) (int (w * c)) w results trace
       = searchBatch_loop config net regs (int c) (delayOf config options)
           (resolveTimeout config options) (onProgress options) (int (Suc w * c)) (Suc w)
           (results @ map (\<lambda>p. projr (fst (?L p))) ?ps)
           (trace @ waveEvents config net regs options c w)"
    proof -
      have lt: "int (w * c) < int ?n" using True by (simp only: of_nat_less_iff)
      have pa: "promise_all
           (map (\<lambda>(k, reg). searchSingleAsBatchResult config (net w k) reg
                               \<lparr> opt_timeoutMs = Some (resolveTimeout config options), opt_maxRetries = None \<rparr>)
              (enumerate 0 (slice regs (int (w * c)) (int (w * c) + int c))))
         = (Inr (map (\<lambda>p. projr (fst (?L p))) ?ps), [Wave (map (\<lambda>p. snd (?L p)) ?ps)])"
        by (simp only: wave all)
      have pr: "min (int (w * c) + int c) (int ?n) = int ?m" by (simp only: of_nat_min of_nat_add)
      have dl: "(int (w * c) + int c < int ?n) = (w * c + c < ?n)" by linarith
      note st = searchBatch_loop_step [where net = net and w = w and config = config
          and regs = regs and i = "int (w * c)" and mc = "int c"
          and t = "resolveTimeout config options", OF lt pa]
      show ?thesis
        unfolding st pr dl unfolding next_i waveEvents_def ..
    qed
    have res: "map (\<lambda>p. projr (fst (?L p))) ?ps
                 @ map (\<lambda>p. projr (fst (?L p))) [Suc w * c ..< ?n]
             = map (\<lambda>p. projr (fst (?L p))) [w * c ..< ?n]"
    proof (cases "w * c + c \<le> ?n")
      case True
      then have "[w * c ..< ?n] = [w * c ..< w * c + c] @ [w * c + c ..< ?n]"
        by (metis le_add1 upt_add_eq_append le_Suc_ex)
      then show ?thesis using True by (simp add: min_def add.commute)
    next
      case False
      then show ?thesis by (simp add: min_def add.commute)
    qed
    have ws: "[w ..< waveCount ?n c] = w # [Suc w ..< waveCount ?n c]"
      using waveCount_more [OF c True] by (simp add: upt_conv_Cons)
    show ?thesis
      unfolding step less(1) [OF dec]
      using res by (simp add: ws)
  qed
qed


lemma searchBatch_closed:
  assumes "0 < concurrencyOf config options"
  shows "searchBatch config net regs options
       = Some (Inr (map (\<lambda>p. projr (fst (lookupAt config net regs options
                                            (nat (concurrencyOf config options)) p)))
                      [0 ..< length regs]),
               concat (map (waveEvents config net regs options (nat (concurrencyOf config options)))
                         [0 ..< waveCount (length regs) (nat (concurrencyOf config options))]))"
proof -
  let ?c = "nat (concurrencyOf config options)"
  have c: "0 < ?c" and ic: "int ?c = concurrencyOf config options" using assms by simp_all
  have "searchBatch config net regs options
      = searchBatch_loop config net regs (int ?c) (delayOf config options)
          (resolveTimeout config options) (onProgress options) (int (0 * ?c)) 0 [] []"
    unfolding ic by (simp add: searchBatch_def concurrencyOf_def delayOf_def resolveTimeout_def)
  then show ?thesis
    unfolding searchBatch_loop_closed [OF c] by simp
qed

lemma searchBatch_empty: "searchBatch config net [] options = Some (Inr [], [])"
  by (simp add: searchBatch_def searchBatch_loop_done)

lemma searchBatch_loop_returns_only_if:
  assumes ret: "searchBatch_loop config net regs mc d t prog i w results trace = Some y"
  shows "\<not> (mc \<le> 0 \<and> i < int (length regs))"
proof (rule searchBatch_loop.raw_induct
    [where P = "\<lambda>config net regs mc d t prog i w results trace y.
                  \<not> (mc \<le> 0 \<and> i < int (length regs))", OF _ ret])
  fix loop config net regs mc d t prog i w results trace y
  assume IH: "\<And>config net regs mc d t prog i w results trace y.
                loop config net regs mc d t prog i w results trace = Some y \<Longrightarrow>
                \<not> (mc \<le> 0 \<and> i < int (length regs))"
    and body: "(if i < int (length regs) then
        (let batch = slice regs i (i + mc) in
         case promise_all
                (map (\<lambda>(k, reg).
                        searchSingleAsBatchResult config (net w k) reg
                          \<lparr> opt_timeoutMs = Some t, opt_maxRetries = None \<rparr>)
                   (enumerate 0 batch)) of
           (Inl e, tr) \<Rightarrow> Some (Inl e, trace @ tr)
         | (Inr batchResults, tr) \<Rightarrow>
             loop config net regs mc d t prog (i + mc) (Suc w) (results @ batchResults)
               (trace @ tr
                  @ (if prog then [Progress (min (i + mc) (int (length regs))) (int (length regs))]
                     else [])
                  @ (if i + mc < int (length regs) then [Delay d] else [])))
      else Some (Inr results, trace)) = Some y"
  show "\<not> (mc \<le> 0 \<and> i < int (length regs))"
  proof
    assume a: "mc \<le> 0 \<and> i < int (length regs)"
    let ?L = "\<lambda>(k, reg). searchSingleAsBatchResult config (net w k) reg
                               \<lparr> opt_timeoutMs = Some t, opt_maxRetries = None \<rparr>"
    let ?xs = "enumerate 0 (slice regs i (i + mc))"
    have "\<And>p. \<exists>r. fst (?L p) = Inr r"
      using searchSingleAsBatchResult_resolves by (simp add: split_beta)
    then have "collect (map fst (map ?L ?xs)) = Inr (map (\<lambda>p. projr (fst (?L p))) ?xs)"
      by (rule collect_resolved)
    then obtain br tr where pa: "promise_all (map ?L ?xs) = (Inr br, tr)"
      by (simp add: promise_all_def)
    from a have a2: "i < int (length regs)" by simp
    from body have
      "loop config net regs mc d t prog (i + mc) (Suc w) (results @ br)
         (trace @ tr
            @ (if prog then [Progress (min (i + mc) (int (length regs))) (int (length regs))]
               else [])
            @ (if i + mc < int (length regs) then [Delay d] else [])) = Some y"
      by (simp only: Let_def pa a2 if_True prod.case sum.case)
    then have "\<not> (mc \<le> 0 \<and> i + mc < int (length regs))"
      by (rule IH)
    with a show False
      by simp
  qed
qed

lemma searchBatch_never_returns:
  assumes "concurrencyOf config options \<le> 0" and "regs \<noteq> []"
  shows "searchBatch config net regs options = None"
proof (cases "searchBatch config net regs options")
  case None
  then show ?thesis .
next
  case (Some y)
  then have "searchBatch_loop config net regs (concurrencyOf config options) (delayOf config options)
          (resolveTimeout config options) (onProgress options) 0 0 [] [] = Some y"
    by (simp add: searchBatch_def concurrencyOf_def delayOf_def resolveTimeout_def)
  from searchBatch_loop_returns_only_if [OF this] assms show ?thesis by simp
qed


section \<open>Reading the events of a run\<close>

lemma waveSizes_append: "waveSizes (xs @ ys) = waveSizes xs @ waveSizes ys"
  by (induction xs rule: waveSizes.induct) simp_all

lemma progressCalls_append: "progressCalls (xs @ ys) = progressCalls xs @ progressCalls ys"
  by (induction xs rule: progressCalls.induct) simp_all

lemma delays_append: "delays (xs @ ys) = delays xs @ delays ys"
  by (induction xs rule: delays.induct) simp_all

lemma waveSizes_concat:
  "waveSizes (concat (map f js)) = concat (map (\<lambda>j. waveSizes (f j)) js)"
  by (induction js) (simp_all add: waveSizes_append)

lemma progressCalls_concat:
  "progressCalls (concat (map f js)) = concat (map (\<lambda>j. progressCalls (f j)) js)"
  by (induction js) (simp_all add: progressCalls_append)

lemma delays_concat:
  "delays (concat (map f js)) = concat (map (\<lambda>j. delays (f j)) js)"
  by (induction js) (simp_all add: delays_append)

lemma waveCount_iff: "0 < c \<Longrightarrow> (j < waveCount n c) = (j * c < n)"
  using waveCount_more [of c j n] waveCount_done [of c n j] by fastforce

lemma waveSizes_waveEvents:
  assumes "0 < c"
  shows "waveSizes (waveEvents config net regs options c j)
       = [if Suc j < waveCount (length regs) c then c else length regs - j * c]"
proof -
  have "(Suc j < waveCount (length regs) c) = (j * c + c < length regs)"
    using waveCount_iff [OF assms, of "Suc j" "length regs"] by (simp add: add.commute)
  then show ?thesis
    by (auto simp: waveEvents_def waveSizes_append)
qed

lemma progressCalls_waveEvents:
  "progressCalls (waveEvents config net regs options c j)
     = (if onProgress options
        then [(min (int (j * c) + int c) (int (length regs)), int (length regs))] else [])"
proof -
  have e: "min (int (j * c) + int c) (int (length regs)) = int (min (j * c + c) (length regs))"
    by (simp only: of_nat_min of_nat_add)
  show ?thesis unfolding e by (simp add: waveEvents_def progressCalls_append)
qed

lemma delays_waveEvents:
  "delays (waveEvents config net regs options c j)
     = (if j * c + c < length regs then [delayOf config options] else [])"
  by (simp add: waveEvents_def delays_append)

lemma concat_all_but_last:
  "k \<le> W \<Longrightarrow>
   concat (map (\<lambda>j. if Suc j < W then [d] else []) [0 ..< k]) = replicate (min k (W - 1)) d"
proof (induction k)
  case 0
  show ?case by simp
next
  case (Suc k)
  then have IH: "concat (map (\<lambda>j. if Suc j < W then [d] else []) [0 ..< k]) = replicate (min k (W - 1)) d"
    by simp
  show ?case
  proof (cases "Suc k < W")
    case True
    then have "min k (W - 1) = k" and "min (Suc k) (W - 1) = Suc k" by simp_all
    then show ?thesis using IH True by (simp add: replicate_append_same)
  next
    case False
    then have "min k (W - 1) = k" and "min (Suc k) (W - 1) = k" using Suc.prems by simp_all
    then show ?thesis using IH False by simp
  qed
qed

lemma delays_run:
  assumes "0 < c"
  shows "delays (concat (map (waveEvents config net regs options c) [0 ..< waveCount (length regs) c]))
       = replicate (waveCount (length regs) c - 1) (delayOf config options)"
proof -
  let ?W = "waveCount (length regs) c"
  have "\<And>j. (j * c + c < length regs) = (Suc j < ?W)"
    using waveCount_iff [OF assms, of _ "length regs"] by (simp add: add.commute)
  then have "delays (concat (map (waveEvents config net regs options c) [0 ..< ?W]))
     = concat (map (\<lambda>j. if Suc j < ?W then [delayOf config options] else []) [0 ..< ?W])"
    by (simp add: delays_concat delays_waveEvents)
  then show ?thesis by (simp add: concat_all_but_last)
qed

lemma no_delay_last:
  assumes "0 < c"
  shows "concat (map (waveEvents config net regs options c) [0 ..< waveCount (length regs) c]) = []
       \<or> last (concat (map (waveEvents config net regs options c)
                    [0 ..< waveCount (length regs) c])) \<noteq> Delay ms"
proof (cases "waveCount (length regs) c")
  case 0
  then show ?thesis by simp
next
  case (Suc k)
  have "\<not> (k * c + c < length regs)"
    using waveCount_iff [OF assms, of "Suc k" "length regs"] Suc by (simp add: add.commute)
  then have "last (waveEvents config net regs options c k) \<noteq> Delay ms"
    by (simp add: waveEvents_def)
  moreover have "waveEvents config net regs options c k \<noteq> []"
    by (simp add: waveEvents_def)
  ultimately show ?thesis
    using Suc by simp
qed

section \<open>Batch runs\<close>

lemma list3: "length xs = 3 \<Longrightarrow> xs = [xs ! 0, xs ! 1, xs ! 2]"
  by (auto simp: numeral_3_eq_3 length_Suc_conv)

text \<open>
  Claim C1. With a positive concurrency limit \<open>c\<close>, \<open>searchBatch\<close> returns for every list
  of identifiers: its promise resolves (it never rejects) to a list of outcomes as long as
  the input, and the outcome at position \<open>p\<close> is the outcome of the lookup of the
  identifier at position \<open>p\<close> of the input, the lookup at place \<open>p mod c\<close> of wave
  \<open>p div c\<close>, wherever the requests of a wave end.
\<close>
theorem searchBatch_one_outcome_per_identifier:
  assumes "concurrencyOf config options = int c" and "0 < c"
  shows "\<exists>res tr. searchBatch config net regs options = Some (Inr res, tr)
           \<and> length res = length regs
           \<and> (\<forall>p < length regs.
                 fst (searchSingleAsBatchResult config (net (p div c) (p mod c)) (regs ! p)
                        (lookupOptions config options)) = Inr (res ! p))"
proof -
  let ?res = "map (\<lambda>p. projr (fst (lookupAt config net regs options c p))) [0 ..< length regs]"
  have c: "nat (concurrencyOf config options) = c" and pos: "0 < concurrencyOf config options"
    using assms by simp_all
  have run: "searchBatch config net regs options
       = Some (Inr ?res, concat (map (waveEvents config net regs options c)
                                   [0 ..< waveCount (length regs) c]))"
    using searchBatch_closed [OF pos, where net = net and regs = regs] by (simp only: c)
  have "fst (searchSingleAsBatchResult config (net (p div c) (p mod c)) (regs ! p)
                        (lookupOptions config options)) = Inr (?res ! p)"
    if "p < length regs" for p
  proof -
    obtain r where "fst (lookupAt config net regs options c p) = Inr r"
      using lookupAt_resolves by blast
    then show ?thesis using that by (simp add: lookupAt_def)
  qed
  then show ?thesis using run by simp
qed

theorem searchBatch_one_outcome_per_identifier_witness:
  "concurrencyOf defaultConfig noBatchOptions = int 5
   \<and> (\<exists>tr. searchBatch defaultConfig (\<lambda>_ _ _. sampleRemote) threeIds noBatchOptions
          = Some (Inr [\<lparr> name = ''Dr A One'', registration = ''MP0001'', city = ''Durban'',
                          status = ''Active'', found = True \<rparr>,
                       \<lparr> name = ''Dr B Two'', registration = ''MP0002'', city = ''Soweto'',
                          status = ''Inactive'', found = True \<rparr>,
                       \<lparr> name = [], registration = ''ZZ9999'', city = [], status = [],
                          found = False \<rparr>], tr))"
proof -
  have h: "concurrencyOf defaultConfig noBatchOptions = int 5"
    by (simp add: concurrencyOf_def defaultConfig_def noBatchOptions_def)
  obtain res tr where run: "searchBatch defaultConfig (\<lambda>_ _ _. sampleRemote) threeIds noBatchOptions
        = Some (Inr res, tr)"
    and len: "length res = length threeIds"
    and at: "\<forall>p < length threeIds.
                 fst (searchSingleAsBatchResult defaultConfig (\<lambda>_. sampleRemote) (threeIds ! p)
                        (lookupOptions defaultConfig noBatchOptions)) = Inr (res ! p)"
    using searchBatch_one_outcome_per_identifier
            [OF h, where net = "\<lambda>_ _ _. sampleRemote" and regs = threeIds]
    by auto
  have t: "resolveTimeout defaultConfig (lookupOptions defaultConfig noBatchOptions) = 15000"
    by (simp add: resolveTimeout_def lookupOptions_def defaultConfig_def noBatchOptions_def)
  have l3: "length res = 3" using len by (simp add: threeIds_def)
  have r0: "res ! 0 = \<lparr> name = ''Dr A One'', registration = ''MP0001'', city = ''Durban'',
                          status = ''Active'', found = True \<rparr>"
    using at [rule_format, of 0]
    by (simp add: threeIds_def searchSingleAsBatchResult_def lookupAttempt_def promise_defs t
          executeSearch_def sampleRemote_def response_ok_def parseSearchResults_def orElse_def
          truthy_def
          parseRow_def cellAt_def trim_def removeWhitespace_def isWhitespace_def foundResult_def)
  have r1: "res ! 1 = \<lparr> name = ''Dr B Two'', registration = ''MP0002'', city = ''Soweto'',
                          status = ''Inactive'', found = True \<rparr>"
    using at [rule_format, of 1]
    by (simp add: threeIds_def searchSingleAsBatchResult_def lookupAttempt_def promise_defs t
          executeSearch_def sampleRemote_def response_ok_def parseSearchResults_def orElse_def
          truthy_def
          parseRow_def cellAt_def trim_def removeWhitespace_def isWhitespace_def foundResult_def)
  have r2: "res ! 2 = \<lparr> name = [], registration = ''ZZ9999'', city = [], status = [],
                          found = False \<rparr>"
    using at [rule_format, of 2]
    by (simp add: threeIds_def searchSingleAsBatchResult_def lookupAttempt_def promise_defs t
          executeSearch_def sampleRemote_def response_ok_def parseSearchResults_def orElse_def
          truthy_def
          notFoundResult_def)
  show ?thesis
    using h run list3 [OF l3] r0 r1 r2 by auto
qed


lemma searchBatch_run:
  assumes "concurrencyOf config options = int c" and "0 < c"
  shows "searchBatch config net regs options
       = Some (Inr (map (\<lambda>p. projr (fst (lookupAt config net regs options c p)))
                      [0 ..< length regs]),
               concat (map (waveEvents config net regs options c)
                         [0 ..< waveCount (length regs) c]))"
proof -
  have c: "nat (concurrencyOf config options) = c" and pos: "0 < concurrencyOf config options"
    using assms by simp_all
  show ?thesis
    using searchBatch_closed [OF pos, where net = net and regs = regs] by (simp only: c)
qed

text \<open>
  Claim C4. With a concurrency limit \<open>c > 0\<close> and \<open>n\<close> identifiers, \<open>searchBatch\<close>
  runs \<open>n / c\<close> rounded up waves, each of \<open>c\<close> lookups but the last, which has the
  rest; when a progress callback is given it is called once per wave, for wave \<open>j\<close> with
  the arguments \<open>min (j * c + c) n\<close> and \<open>n\<close>, and not at all otherwise. On the empty
  list the result is the empty list, with no wave and no progress call, for every
  configuration.
\<close>
theorem searchBatch_waves_and_progress:
  "(concurrencyOf config options = int c \<and> 0 < c \<longrightarrow>
      (\<exists>res tr. searchBatch config net regs options = Some (Inr res, tr)
         \<and> waveSizes tr
             = map (\<lambda>j. if Suc j < waveCount (length regs) c then c else length regs - j * c)
                 [0 ..< waveCount (length regs) c]
         \<and> progressCalls tr
             = (if onProgress options
                then map (\<lambda>j. (min (int (j * c) + int c) (int (length regs)), int (length regs)))
                       [0 ..< waveCount (length regs) c]
                else [])))
   \<and> searchBatch config net [] options = Some (Inr [], [])"
proof -
  have "\<exists>res tr. searchBatch config net regs options = Some (Inr res, tr)
         \<and> waveSizes tr
             = map (\<lambda>j. if Suc j < waveCount (length regs) c then c else length regs - j * c)
                 [0 ..< waveCount (length regs) c]
         \<and> progressCalls tr
             = (if onProgress options
                then map (\<lambda>j. (min (int (j * c) + int c) (int (length regs)), int (length regs)))
                       [0 ..< waveCount (length regs) c]
                else [])"
    if h: "concurrencyOf config options = int c" "0 < c"
  proof -
    let ?tr = "concat (map (waveEvents config net regs options c) [0 ..< waveCount (length regs) c])"
    have w: "waveSizes ?tr
             = map (\<lambda>j. if Suc j < waveCount (length regs) c then c else length regs - j * c)
                 [0 ..< waveCount (length regs) c]"
      using h(2) by (simp add: waveSizes_concat waveSizes_waveEvents)
    have "progressCalls ?tr
             = concat (map (\<lambda>j. if onProgress options
                                 then [(min (int (j * c) + int c) (int (length regs)), int (length regs))]
                                 else []) [0 ..< waveCount (length regs) c])"
      by (simp only: progressCalls_concat progressCalls_waveEvents)
    then have p: "progressCalls ?tr
             = (if onProgress options
                then map (\<lambda>j. (min (int (j * c) + int c) (int (length regs)), int (length regs)))
                       [0 ..< waveCount (length regs) c]
                else [])"
      by (cases "onProgress options") simp_all
    show ?thesis
      using searchBatch_run [OF h, where net = net and regs = regs] w p by blast
  qed
  then show ?thesis
    using searchBatch_empty [of config net options] by blast
qed

theorem searchBatch_waves_and_progress_witness:
  "concurrencyOf defaultConfig twoAtATime = int 2
   \<and> (\<exists>res tr. searchBatch defaultConfig (\<lambda>_ _ _. sampleRemote) fiveIds twoAtATime
                  = Some (Inr res, tr)
         \<and> waveSizes tr = [2, 2, 1]
         \<and> progressCalls tr = [(2, 5), (4, 5), (5, 5)])
   \<and> searchBatch defaultConfig (\<lambda>_ _ _. sampleRemote) [] twoAtATime = Some (Inr [], [])"
proof -
  have h: "concurrencyOf defaultConfig twoAtATime = int 2"
    by (simp add: concurrencyOf_def twoAtATime_def)
  have w: "waveCount 5 2 = 3"
    by (simp add: waveCount_def)
  have u: "[0 ..< 3] = [0, 1, 2]"
    by (simp add: numeral_3_eq_3 upt_rec)
  have p: "onProgress twoAtATime" by (simp add: twoAtATime_def)
  have l: "length fiveIds = 5" by (simp add: fiveIds_def)
  show ?thesis
    using searchBatch_waves_and_progress
            [where config = defaultConfig and options = twoAtATime and c = 2
               and net = "\<lambda>_ _ _. sampleRemote" and regs = fiveIds] h
    by (simp add: w u p l)
qed

text \<open>
  Claim C7. With a concurrency limit \<open>c > 0\<close>, the events of a run of \<open>searchBatch\<close>
  are those of its waves in turn; wave \<open>j\<close> is followed by the delay between batches
  exactly when identifiers remain after it (\<open>j * c + c < n\<close>). A run of \<open>w\<close> waves
  has \<open>w - 1\<close> such delays (none when \<open>w = 0\<close>), each of the configured length, and
  its last event is no delay.
\<close>
theorem searchBatch_delays_between_waves:
  assumes "concurrencyOf config options = int c" and "0 < c"
  shows "\<exists>res tr. searchBatch config net regs options = Some (Inr res, tr)
           \<and> tr = concat (map (waveEvents config net regs options c)
                             [0 ..< waveCount (length regs) c])
           \<and> length (waveSizes tr) = waveCount (length regs) c
           \<and> delays tr = replicate (waveCount (length regs) c - 1) (delayOf config options)
           \<and> (tr = [] \<or> (\<forall>ms. last tr \<noteq> Delay ms))
           \<and> (\<forall>j. delays (waveEvents config net regs options c j)
                     = (if j * c + c < length regs then [delayOf config options] else []))"
proof -
  let ?tr = "concat (map (waveEvents config net regs options c) [0 ..< waveCount (length regs) c])"
  have w: "length (waveSizes ?tr) = waveCount (length regs) c"
    using assms(2) by (simp add: waveSizes_concat waveSizes_waveEvents)
  have d: "delays ?tr = replicate (waveCount (length regs) c - 1) (delayOf config options)"
    using assms(2) by (rule delays_run)
  have l: "?tr = [] \<or> (\<forall>ms. last ?tr \<noteq> Delay ms)"
    using no_delay_last [OF assms(2), of config net regs options] by blast
  have e: "\<forall>j. delays (waveEvents config net regs options c j)
                     = (if j * c + c < length regs then [delayOf config options] else [])"
    by (simp add: delays_waveEvents)
  show ?thesis
    using searchBatch_run [OF assms, where net = net and regs = regs] w d l e by blast
qed

theorem searchBatch_delays_between_waves_witness:
  "concurrencyOf defaultConfig twoAtATime = int 2
   \<and> (\<exists>res tr. searchBatch defaultConfig (\<lambda>_ _ _. sampleRemote) fiveIds twoAtATime
                  = Some (Inr res, tr)
         \<and> length (waveSizes tr) = 3 \<and> delays tr = [100, 100])"
proof -
  have h: "concurrencyOf defaultConfig twoAtATime = int 2"
    by (simp add: concurrencyOf_def twoAtATime_def)
  have w: "waveCount (length fiveIds) 2 = 3"
    by (simp add: waveCount_def fiveIds_def)
  have d: "delayOf defaultConfig twoAtATime = 100"
    by (simp add: delayOf_def twoAtATime_def)
  have r: "replicate (3 - 1) (100::int) = [100, 100]"
    by (simp add: numeral_2_eq_2)
  obtain res tr where "searchBatch defaultConfig (\<lambda>_ _ _. sampleRemote) fiveIds twoAtATime
                  = Some (Inr res, tr)"
    and "length (waveSizes tr) = 3" and "delays tr = [100, 100]"
    using searchBatch_delays_between_waves [OF h, where net = "\<lambda>_ _ _. sampleRemote" and regs = fiveIds]
    unfolding w d r by auto
  then show ?thesis using h by blast
qed


text \<open>
  Claim C8. When the answer of the remote endpoint depends on the registration number
  alone (not on the wave, the place in the wave, the attempt or the timeout), two runs of
  \<open>searchBatch\<close> on the same list with the same configuration return the same
  outcomes, in the same order, and so the same statistics: the outcome at each position is
  a function of the identifier at that position.
\<close>
theorem searchBatch_deterministic:
  assumes "concurrencyOf config options = int c" and "0 < c"
    and "\<forall>w k a reg t. net1 w k a reg t = remote reg"
    and "\<forall>w k a reg t. net2 w k a reg t = remote reg"
  shows "\<exists>res tr. searchBatch config net1 regs options = Some (Inr res, tr)
           \<and> searchBatch config net2 regs options = Some (Inr res, tr)
           \<and> map Inr res
               = map (\<lambda>reg. fst (searchSingleAsBatchResult config (\<lambda>_ reg' _. remote reg') reg
                                   (lookupOptions config options))) regs
           \<and> (\<forall>res1 tr1 res2 tr2.
                 searchBatch config net1 regs options = Some (Inr res1, tr1)
                 \<and> searchBatch config net2 regs options = Some (Inr res2, tr2)
                 \<longrightarrow> res1 = res2 \<and> calculateStatistics res1 = calculateStatistics res2)"
proof -
  have n1: "net1 = (\<lambda>_ _ _ reg _. remote reg)" using assms(3) by (intro ext) simp
  have n2: "net2 = (\<lambda>_ _ _ reg _. remote reg)" using assms(4) by (intro ext) simp
  define res where
    "res = map (\<lambda>p. projr (fst (lookupAt config net1 regs options c p))) [0 ..< length regs]"
  define tr where
    "tr = concat (map (waveEvents config net1 regs options c) [0 ..< waveCount (length regs) c])"
  have run: "searchBatch config net1 regs options = Some (Inr res, tr)"
    unfolding res_def tr_def by (rule searchBatch_run [OF assms(1,2)])
  have len: "length res = length regs" by (simp add: res_def)
  have at: "\<forall>p < length regs.
                 fst (searchSingleAsBatchResult config (net1 (p div c) (p mod c)) (regs ! p)
                        (lookupOptions config options)) = Inr (res ! p)"
  proof (intro allI impI)
    fix p assume p: "p < length regs"
    obtain r where "fst (lookupAt config net1 regs options c p) = Inr r"
      using lookupAt_resolves by blast
    then show "fst (searchSingleAsBatchResult config (net1 (p div c) (p mod c)) (regs ! p)
                        (lookupOptions config options)) = Inr (res ! p)"
      using p by (simp add: lookupAt_def res_def)
  qed
  have "map Inr res
               = map (\<lambda>reg. fst (searchSingleAsBatchResult config (\<lambda>_ reg' _. remote reg') reg
                                   (lookupOptions config options))) regs"
  proof (rule nth_equalityI)
    show "length (map Inr res)
        = length (map (\<lambda>reg. fst (searchSingleAsBatchResult config (\<lambda>_ reg' _. remote reg') reg
                                   (lookupOptions config options))) regs)"
      using len by simp
  next
    fix p assume "p < length (map Inr res)"
    then have p: "p < length regs" using len by simp
    then show "map Inr res ! p
        = map (\<lambda>reg. fst (searchSingleAsBatchResult config (\<lambda>_ reg' _. remote reg') reg
                                   (lookupOptions config options))) regs ! p"
      using at len by (simp add: n1)
  qed
  then show ?thesis using run by (auto simp: n1 n2)
qed

theorem searchBatch_deterministic_witness:
  "\<exists>res tr. searchBatch defaultConfig (\<lambda>_ _ _. sampleRemote) threeIds noBatchOptions
               = Some (Inr res, tr)
      \<and> searchBatch defaultConfig (\<lambda>w k a reg t. sampleRemote reg (t + int a)) threeIds noBatchOptions
               = Some (Inr res, tr)
      \<and> calculateStatistics res
          = \<lparr> activeCount = 1, inactiveCount = 1, notFoundCount = 1, totalProcessed = 3 \<rparr>"
proof -
  have h: "concurrencyOf defaultConfig noBatchOptions = int 5"
    by (simp add: concurrencyOf_def defaultConfig_def noBatchOptions_def)
  have a: "\<forall>w k a reg t. (\<lambda>_ _ _. sampleRemote) w k a reg t = sampleRemote reg 0"
    by (simp add: sampleRemote_def)
  have b: "\<forall>w k a reg t. (\<lambda>w k a reg t. sampleRemote reg (t + int a)) w k a reg t = sampleRemote reg 0"
    by (simp add: sampleRemote_def)
  have t: "resolveTimeout defaultConfig (lookupOptions defaultConfig noBatchOptions) = 15000"
    by (simp add: resolveTimeout_def lookupOptions_def defaultConfig_def noBatchOptions_def)
  obtain res tr where r1: "searchBatch defaultConfig (\<lambda>_ _ _. sampleRemote) threeIds noBatchOptions
               = Some (Inr res, tr)"
    and r2: "searchBatch defaultConfig (\<lambda>w k a reg t. sampleRemote reg (t + int a)) threeIds noBatchOptions
               = Some (Inr res, tr)"
    and m: "map Inr res
               = map (\<lambda>reg. fst (searchSingleAsBatchResult defaultConfig (\<lambda>_ reg' _. sampleRemote reg' 0) reg
                                   (lookupOptions defaultConfig noBatchOptions))) threeIds"
    using searchBatch_deterministic [OF h _ a b, where regs = threeIds] by auto
  have "res = [\<lparr> name = ''Dr A One'', registration = ''MP0001'', city = ''Durban'',
                          status = ''Active'', found = True \<rparr>,
                       \<lparr> name = ''Dr B Two'', registration = ''MP0002'', city = ''Soweto'',
                          status = ''Inactive'', found = True \<rparr>,
                       \<lparr> name = [], registration = ''ZZ9999'', city = [], status = [],
                          found = False \<rparr>]"
    using m
    by (simp add: threeIds_def searchSingleAsBatchResult_def lookupAttempt_def promise_defs t
          executeSearch_def sampleRemote_def response_ok_def parseSearchResults_def orElse_def
          truthy_def
          parseRow_def cellAt_def trim_def removeWhitespace_def isWhitespace_def foundResult_def
          notFoundResult_def map_eq_Cons_conv)
  moreover have "toLowerCase ''Active'' = ''active''" and "toLowerCase ''Inactive'' = ''inactive''"
    by code_simp+
  ultimately have "calculateStatistics res
          = \<lparr> activeCount = 1, inactiveCount = 1, notFoundCount = 1, totalProcessed = 3 \<rparr>"
    by (simp add: calculateStatistics_def)
  then show ?thesis using r1 r2 by blast
qed

section \<open>Extraction of registration numbers\<close>

lemma trim_no_leading: "dropWhile isWhitespace (trim s) = trim s"
proof -
  let ?d = "dropWhile isWhitespace s"
  let ?e = "dropWhile isWhitespace (rev ?d)"
  have split: "?d = rev ?e @ rev (takeWhile isWhitespace (rev ?d))"
    by (metis rev_append rev_rev_ident takeWhile_dropWhile_id)
  show ?thesis
  proof (cases "rev ?e = []")
    case True
    show ?thesis unfolding trim_def True by simp
  next
    case False
    have "?d \<noteq> []"
    proof
      assume a: "?d = []"
      have "rev ?e = []" unfolding a by simp
      with False show False by contradiction
    qed
    then have "\<not> isWhitespace (hd ?d)" by (rule hd_dropWhile)
    moreover have "hd ?d = hd (rev ?e)" using split False by (metis hd_append2)
    ultimately show ?thesis
      using False by (simp add: trim_def dropWhile_eq_self_iff)
  qed
qed

lemma trim_idem: "trim (trim s) = trim s"
proof -
  have "trim (trim s) = rev (dropWhile isWhitespace (rev (trim s)))"
    by (simp add: trim_def [of "trim s"] trim_no_leading)
  also have "\<dots> = trim s"
    by (simp add: trim_def)
  finally show ?thesis .
qed

lemma candidate_trimmed:
  assumes "candidate fm options r = Some x"
  shows "trim x = x \<and> x \<noteq> []"
proof -
  from assms obtain v where "x = trim (stringOf v)" and "x \<noteq> []"
    by (auto simp: candidate_def getRegistrationNumber_def Let_def
          split: if_splits option.splits)
  then show ?thesis by (simp add: trim_idem)
qed

lemma extractRow_candidate:
  "extractRow fm options (regs, skipped) r
     = (case candidate fm options r of
          None \<Rightarrow> (regs, skipped + 1)
        | Some x \<Rightarrow> if x \<in> set regs then (regs, skipped) else (regs @ [x], skipped))"
proof (cases "candidate fm options r")
  case None
  then show ?thesis
    by (auto simp: extractRow_def candidate_def Let_def split: if_splits option.splits)
next
  case (Some x)
  then have x: "trim x = x" "x \<noteq> []" using candidate_trimmed by blast+
  from Some have "getRegistrationNumber fm r (fileType options) = Some x"
    by (auto simp: candidate_def Let_def split: if_splits option.splits)
  with Some x show ?thesis
    by (auto simp: extractRow_def candidate_def Let_def split: if_splits option.splits)
qed

lemma extract_fold:
  "foldl (extractRow fm options) (regs, skipped) rows
     = (firstOccurrences regs (List.map_filter (candidate fm options) rows),
        skipped + length (filter (\<lambda>r. candidate fm options r = None) rows))"
proof (induction rows arbitrary: regs skipped)
  case Nil
  show ?case by (simp add: List.map_filter_simps)
next
  case (Cons r rows)
  show ?case
    by (cases "candidate fm options r")
       (simp_all add: extractRow_candidate Cons.IH List.map_filter_simps)
qed

lemma firstOccurrences_set: "set (firstOccurrences seen xs) = set seen \<union> set xs"
  by (induction seen xs rule: firstOccurrences.induct) auto

lemma firstOccurrences_distinct: "distinct seen \<Longrightarrow> distinct (firstOccurrences seen xs)"
  by (induction seen xs rule: firstOccurrences.induct) auto

lemma firstOccurrences_length:
  "length (firstOccurrences seen xs) \<le> length seen + length xs"
  by (induction seen xs rule: firstOccurrences.induct) auto

lemma firstOccurrences_full:
  "distinct seen \<Longrightarrow>
   (length (firstOccurrences seen xs) = length seen + length xs)
     = (distinct xs \<and> set seen \<inter> set xs = {})"
proof (induction seen xs rule: firstOccurrences.induct)
  case (1 seen)
  show ?case by simp
next
  case (2 seen x xs)
  show ?case
  proof (cases "x \<in> set seen")
    case True
    then show ?thesis
      using firstOccurrences_length [of seen xs] by auto
  next
    case False
    then show ?thesis using 2 by auto
  qed
qed

lemma remdups_skip: "x \<in> set ys \<Longrightarrow> remdups (zs @ x # ys) = remdups (zs @ ys)"
  by (induction zs) auto

lemma firstOccurrences_remdups: "firstOccurrences [] xs = rev (remdups (rev xs))"
proof -
  have "distinct seen \<Longrightarrow> firstOccurrences seen xs = rev (remdups (rev (seen @ xs)))" for seen
  proof (induction seen xs rule: firstOccurrences.induct)
    case (1 seen)
    then show ?case by (simp add: distinct_remdups_id)
  next
    case (2 seen x xs)
    show ?case
    proof (cases "x \<in> set seen")
      case True
      have "remdups (rev xs @ x # rev seen) = remdups (rev xs @ rev seen)"
        using True by (simp add: remdups_skip)
      then show ?thesis using 2 True by simp
    next
      case False
      then show ?thesis using 2 by simp
    qed
  qed
  then show ?thesis by simp
qed

lemma map_filter_length:
  "length (List.map_filter f xs) + length (filter (\<lambda>x. f x = None) xs) = length xs"
  by (induction xs) (auto simp: List.map_filter_simps split: option.splits)

text \<open>
  Claim C10. For every list of parsed rows, the registration numbers that \<open>extract\<close>
  returns are trimmed, non-empty and pairwise distinct, in the order in which the
  qualifying rows first offer them. A row whose number is already in the list is neither
  added nor counted as skipped, so the length of the list plus \<open>skippedCount\<close> is at
  most \<open>totalRows\<close>, the number of rows, with equality exactly when no qualifying row
  repeats the number of an earlier one.
\<close>
theorem extract_rows_distinct_trimmed:
  "registrationNumbers (extract_rows fm rows options)
     = firstOccurrences [] (List.map_filter (candidate fm options) rows)
   \<and> registrationNumbers (extract_rows fm rows options)
     = rev (remdups (rev (List.map_filter (candidate fm options) rows)))
   \<and> (\<forall>x \<in> set (registrationNumbers (extract_rows fm rows options)). trim x = x \<and> x \<noteq> [])
   \<and> distinct (registrationNumbers (extract_rows fm rows options))
   \<and> skippedCount (extract_rows fm rows options)
       = length (filter (\<lambda>r. candidate fm options r = None) rows)
   \<and> totalRows (extract_rows fm rows options) = length rows
   \<and> length (registrationNumbers (extract_rows fm rows options))
       + skippedCount (extract_rows fm rows options) \<le> totalRows (extract_rows fm rows options)
   \<and> (length (registrationNumbers (extract_rows fm rows options))
         + skippedCount (extract_rows fm rows options) = totalRows (extract_rows fm rows options)
       \<longleftrightarrow> distinct (List.map_filter (candidate fm options) rows))"
proof -
  let ?cs = "List.map_filter (candidate fm options) rows"
  let ?sk = "length (filter (\<lambda>r. candidate fm options r = None) rows)"
  have ex: "extract_rows fm rows options
      = \<lparr> registrationNumbers = firstOccurrences [] ?cs, skippedCount = ?sk,
          totalRows = length rows \<rparr>"
    by (simp add: extract_rows_def extract_fold)
  have tr: "\<forall>x \<in> set (firstOccurrences [] ?cs). trim x = x \<and> x \<noteq> []"
    using candidate_trimmed [of fm options]
    by (auto simp: firstOccurrences_set List.map_filter_def)
  have di: "distinct (firstOccurrences [] ?cs)"
    by (simp add: firstOccurrences_distinct)
  have total: "length ?cs + ?sk = length rows" by (rule map_filter_length)
  have le: "length (firstOccurrences [] ?cs) + ?sk \<le> length rows"
    using firstOccurrences_length [of "[]" ?cs] total by simp
  have eq: "(length (firstOccurrences [] ?cs) + ?sk = length rows) = distinct ?cs"
    using firstOccurrences_full [of "[]" ?cs] total by auto
  have fo: "firstOccurrences [] ?cs = rev (remdups (rev ?cs))"
    by (rule firstOccurrences_remdups)
  show ?thesis
    unfolding ex using tr di le eq fo by simp
qed

theorem extract_rows_distinct_trimmed_witness:
  "extract_rows defaultFieldMappings sampleRows \<lparr> fileType = Csv \<rparr>
     = \<lparr> registrationNumbers = [''MP0001'', ''MP0002'', ''1e+21''], skippedCount = 3,
         totalRows = 8 \<rparr>
   \<and> List.map_filter (candidate defaultFieldMappings \<lparr> fileType = Csv \<rparr>) sampleRows
       = [''MP0001'', ''MP0002'', ''MP0001'', ''MP0002'', ''1e+21'']
   \<and> distinct (registrationNumbers (extract_rows defaultFieldMappings sampleRows \<lparr> fileType = Csv \<rparr>))"
proof -
  have v: "extract_rows defaultFieldMappings sampleRows \<lparr> fileType = Csv \<rparr>
     = \<lparr> registrationNumbers = [''MP0001'', ''MP0002'', ''1e+21''], skippedCount = 3,
         totalRows = 8 \<rparr>"
    by code_simp
  have c: "List.map_filter (candidate defaultFieldMappings \<lparr> fileType = Csv \<rparr>) sampleRows
       = [''MP0001'', ''MP0002'', ''MP0001'', ''MP0002'', ''1e+21'']"
    by code_simp
  show ?thesis
    using extract_rows_distinct_trimmed [of defaultFieldMappings sampleRows "\<lparr> fileType = Csv \<rparr>"] v c
    by simp
qed

end
